theory Spec2Isabelle
  imports Complex_Main "HOL-Library.Word"
begin

section \<open>JavaScript strings, numbers and errors\<close>

text \<open>
  A JavaScript string is a sequence of UTF-16 code units. String literals of the source
  are written with \<open>js\<close>, which maps every ASCII character to its code unit.
\<close>

type_synonym jschar = "16 word"
type_synonym jsstring = "jschar list"
type_synonym byte = "8 word"

abbreviation js :: "string \<Rightarrow> jsstring" where
  "js s \<equiv> map of_char s"

text \<open>
  Every exception of the program reaches the \<open>catch\<close> of the main block, which reads
  only \<open>error.message\<close>. A system error carries the message of the failed file-system
  call; type and range errors are raised by the engine itself.
\<close>

datatype error = SystemError jsstring | TypeError jsstring | RangeError jsstring

fun message :: "error \<Rightarrow> jsstring" where
  "message (SystemError m) = m"
| "message (TypeError m) = m"
| "message (RangeError m) = m"

subsection \<open>Numbers\<close>

text \<open>
  The only non-integer arithmetic of the program is \<open>nonTextBytes / bytesToCheck\<close>
  and its comparison with the literal \<open>0.3\<close>. Both are IEEE 754 binary64 operations:
  the quotient of two integers is the exact rational quotient rounded to the nearest
  double (ties to even), \<open>0 / 0\<close> is \<open>NaN\<close>, and a comparison with \<open>NaN\<close> is false.
  \<open>fl\<close> rounds a non-negative rational below \<open>2 ^ 53\<close>: it scales the value into
  \<open>[2 ^ 52, 2 ^ 53)\<close> (at most 1074 doublings, which is where the subnormal range
  ends), rounds to an integer and scales back.
\<close>

datatype jsnumber = NaN | PosInfinity | Finite rat

definition round_even :: "rat \<Rightarrow> int" where
  "round_even x = (let f = \<lfloor>x\<rfloor>; r = x - of_int f in
     if r < 1/2 then f else if 1/2 < r then f + 1 else if even f then f else f + 1)"

fun ups :: "nat \<Rightarrow> rat \<Rightarrow> nat" where
  "ups 0 q = 0"
| "ups (Suc f) q = (if 2 ^ 52 \<le> q then 0 else Suc (ups f (2 * q)))"

definition fl :: "rat \<Rightarrow> rat" where
  "fl q = (let i = ups 1074 q in of_int (round_even (q * 2 ^ i)) / 2 ^ i)"

definition js_div :: "nat \<Rightarrow> nat \<Rightarrow> jsnumber" where
  "js_div k n =
     (if n = 0 then (if k = 0 then NaN else PosInfinity)
      else Finite (fl (of_nat k / of_nat n)))"

fun js_gt :: "jsnumber \<Rightarrow> jsnumber \<Rightarrow> bool" where
  "js_gt (Finite a) (Finite b) = (b < a)"
| "js_gt PosInfinity (Finite b) = True"
| "js_gt _ _ = False"

text \<open>The double that the literal \<open>0.3\<close> denotes: \<open>5404319552844595 / 2 ^ 54\<close>.\<close>

definition lit_0_3 :: rat where
  "lit_0_3 = 5404319552844595 / 2 ^ 54"

section \<open>The file system as the program sees it\<close>

text \<open>
  A file has the two fields of its \<open>Stats\<close> that the program reads (\<open>size\<close> and
  \<open>mtime\<close>, the latter as the text its \<open>Date\<close> prints as) and its bytes; a
  directory has its listing in the order \<open>readdirSync\<close> returns it. Where a call on
  the path throws, the tree holds the message of the error instead: \<open>File st (Inl m)\<close>
  cannot be read, \<open>Dir (Inl m)\<close> cannot be listed, and \<open>NoStat m\<close> cannot even be
  examined by \<open>statSync\<close> (a dangling link, a path that vanished).
\<close>

record stats =
  st_size :: nat
  st_mtime :: jsstring

datatype fsnode =
    File stats "jsstring + byte list"
  | Dir "jsstring + (jsstring \<times> fsnode) list"
  | NoStat jsstring

fun readFileSync :: "fsnode \<Rightarrow> error + byte list" where
  "readFileSync (File st (Inr bytes)) = Inr bytes"
| "readFileSync (File st (Inl m)) = Inl (SystemError m)"
| "readFileSync (Dir _) = Inl (SystemError (js ''EISDIR: illegal operation on a directory, read''))"
| "readFileSync (NoStat m) = Inl (SystemError m)"

section \<open>Binary detector\<close>

definition maxBytes :: nat where
  "maxBytes = 8000"

text \<open>The test of the loop body that increments \<open>nonTextBytes\<close>.\<close>

definition nonText :: "byte \<Rightarrow> bool" where
  "nonText b = ((b < 7 \<or> (b > 14 \<and> b < 32)) \<and> b \<noteq> 9 \<and> b \<noteq> 10 \<and> b \<noteq> 13)"

text \<open>
  The \<open>for\<close> loop of \<open>isBinaryFile\<close>, with its index \<open>i\<close> and its counter. It
  either returns \<open>true\<close> from inside (a null byte) or runs to \<open>bytesToCheck\<close>.
\<close>

datatype loop_result = ReturnTrue | Completed nat

function isBinaryFile_loop :: "byte list \<Rightarrow> nat \<Rightarrow> nat \<Rightarrow> nat \<Rightarrow> loop_result" where
  "isBinaryFile_loop buffer bytesToCheck i nonTextBytes =
     (if i < bytesToCheck then
        (let byte = buffer ! i in
         if byte = 0 then ReturnTrue
         else isBinaryFile_loop buffer bytesToCheck (i + 1)
                (if nonText byte then nonTextBytes + 1 else nonTextBytes))
      else Completed nonTextBytes)"
  by pat_completeness auto
termination
  by (relation "measure (\<lambda>(buffer, bytesToCheck, i, nonTextBytes). bytesToCheck - i)") auto

declare isBinaryFile_loop.simps [simp del]

definition isBinaryFile :: "fsnode \<Rightarrow> error + bool" where
  "isBinaryFile filePath =
     (case readFileSync filePath of
        Inl e \<Rightarrow> Inl e
      | Inr buffer \<Rightarrow>
          (let bytesToCheck = min (length buffer) maxBytes in
           case isBinaryFile_loop buffer bytesToCheck 0 0 of
             ReturnTrue \<Rightarrow> Inr True
           | Completed nonTextBytes \<Rightarrow>
               Inr (js_gt (js_div nonTextBytes bytesToCheck) (Finite lit_0_3))))"

section \<open>Text normalisation\<close>

subsection \<open>Global replacement\<close>

text \<open>
  \<open>text.replace(pattern, replacement)\<close> with a global pattern scans the text from
  left to right: at each position it tries the pattern; a match is handed to the
  replacement and the scan goes on behind it, otherwise the character is copied. A
  pattern is modelled by its matcher: the length of the match that starts at the head
  of the remaining text, if there is one. None of the patterns of the program matches
  the empty string. The replacement may be a callback with a side effect (it appends
  to \<open>preservedItems\<close>), so it takes and returns a state.
\<close>

fun replaceAll ::
  "(jsstring \<Rightarrow> nat option) \<Rightarrow> (jsstring \<Rightarrow> 's \<Rightarrow> jsstring \<times> 's) \<Rightarrow> jsstring \<Rightarrow> 's \<Rightarrow> jsstring \<times> 's"
where
  "replaceAll m f [] st = ([], st)"
| "replaceAll m f (c # cs) st =
     (case m (c # cs) of
        None \<Rightarrow> (case replaceAll m f cs st of (out, st') \<Rightarrow> (c # out, st'))
      | Some n \<Rightarrow>
          (case f (take n (c # cs)) st of (r, st1) \<Rightarrow>
             (case replaceAll m f (drop (n - 1) cs) st1 of (out, st2) \<Rightarrow> (r @ out, st2))))"

declare replaceAll.simps [simp del]

subsection \<open>Character classes\<close>

text \<open>
  \<open>.\<close> matches every code unit but the four line terminators; \<open>\s\<close> and
  \<open>trim\<close> share one set of white space (the line terminators among it); \<open>\d\<close>
  is an ASCII digit.
\<close>

definition isLineTerminator :: "jschar \<Rightarrow> bool" where
  "isLineTerminator c = (c = 0x0A \<or> c = 0x0D \<or> c = 0x2028 \<or> c = 0x2029)"

definition isSpace :: "jschar \<Rightarrow> bool" where
  "isSpace c = (c = 0x09 \<or> c = 0x0A \<or> c = 0x0B \<or> c = 0x0C \<or> c = 0x0D \<or> c = 0x20
     \<or> c = 0xA0 \<or> c = 0x1680 \<or> (0x2000 \<le> c \<and> c \<le> 0x200A) \<or> c = 0x2028 \<or> c = 0x2029
     \<or> c = 0x202F \<or> c = 0x205F \<or> c = 0x3000 \<or> c = 0xFEFF)"

definition isDigit :: "jschar \<Rightarrow> bool" where
  "isDigit c = (0x30 \<le> c \<and> c \<le> 0x39)"

subsection \<open>removeWhitespace\<close>

text \<open>The pattern \<^verbatim>\<open>/\s+/g\<close>: a maximal run of white space.\<close>

definition whitespaceRun :: "jsstring \<Rightarrow> nat option" where
  "whitespaceRun s = (case takeWhile isSpace s of [] \<Rightarrow> None | c # r \<Rightarrow> Some (Suc (length r)))"

definition trim :: "jsstring \<Rightarrow> jsstring" where
  "trim s = rev (dropWhile isSpace (rev (dropWhile isSpace s)))"

definition removeWhitespace :: "jsstring \<Rightarrow> jsstring" where
  "removeWhitespace text = trim (fst (replaceAll whitespaceRun (\<lambda>m u. (js '' '', u)) text ()))"

subsection \<open>The patterns of removeComments\<close>

text \<open>
  \<open>stringPattern\<close>: a quote (0x27, 0x22 or 0x60), then any number of items, each
  either one code unit that is neither the quote, nor a backslash (0x5C), nor a line
  terminator, or a backslash and one code unit that is not a line terminator, then the
  same quote. An item never takes the quote itself and the closing quote is tried only
  where no item fits, so the greedy star has nothing to backtrack into: the match is
  decided by one scan.
\<close>

fun stringBody :: "jschar \<Rightarrow> jsstring \<Rightarrow> nat option" where
  "stringBody q [] = None"
| "stringBody q (c # cs) =
     (if c = q then Some 1
      else if c = 0x5C then
        (case cs of
           [] \<Rightarrow> None
         | d # ds \<Rightarrow> if isLineTerminator d then None else map_option (\<lambda>n. n + 2) (stringBody q ds))
      else if isLineTerminator c then None
      else map_option Suc (stringBody q cs))"

definition stringPattern :: "jsstring \<Rightarrow> nat option" where
  "stringPattern s =
     (case s of
        [] \<Rightarrow> None
      | q # cs \<Rightarrow> if q = 0x27 \<or> q = 0x22 \<or> q = 0x60 then map_option Suc (stringBody q cs) else None)"

text \<open>
  \<open>regexPattern\<close>: a slash (0x2F) not followed by a star (0x2A), one or more code
  units other than slash, backslash and newline, a slash, and the flag letters that
  follow (\<open>g i m s u y\<close>). The body is taken greedily and stops only at a code unit
  it cannot contain, so a shorter body never ends before a slash.
\<close>

definition regexBodyChar :: "jschar \<Rightarrow> bool" where
  "regexBodyChar c = (c \<noteq> 0x2F \<and> c \<noteq> 0x5C \<and> c \<noteq> 0x0A)"

definition regexFlag :: "jschar \<Rightarrow> bool" where
  "regexFlag c = (c = 0x67 \<or> c = 0x69 \<or> c = 0x6D \<or> c = 0x73 \<or> c = 0x75 \<or> c = 0x79)"

definition regexPattern :: "jsstring \<Rightarrow> nat option" where
  "regexPattern s =
     (case s of
        [] \<Rightarrow> None
      | c # cs \<Rightarrow>
          if c \<noteq> 0x2F then None
          else if (case cs of [] \<Rightarrow> False | d # _ \<Rightarrow> d = 0x2A) then None
          else (let body = takeWhile regexBodyChar cs; rest = dropWhile regexBodyChar cs in
                if body = [] then None
                else (case rest of
                        [] \<Rightarrow> None
                      | r # fs \<Rightarrow> if r = 0x2F
                                 then Some (1 + length body + 1 + length (takeWhile regexFlag fs))
                                 else None)))"

text \<open>
  \<open>singleLineCommentPattern\<close>: two slashes, then every code unit up to the next line
  terminator, provided that what follows is a newline, a carriage return or the end of
  the text (the pattern has no \<open>m\<close> flag, so \<open>$\<close> is the end of the text).
\<close>

definition singleLineCommentPattern :: "jsstring \<Rightarrow> nat option" where
  "singleLineCommentPattern s =
     (case s of
        c # d # cs \<Rightarrow>
          if c = 0x2F \<and> d = 0x2F then
            (let body = takeWhile (\<lambda>x. \<not> isLineTerminator x) cs;
                 rest = dropWhile (\<lambda>x. \<not> isLineTerminator x) cs in
             case rest of
               [] \<Rightarrow> Some (2 + length body)
             | r # _ \<Rightarrow> if r = 0x0A \<or> r = 0x0D then Some (2 + length body) else None)
          else None
      | _ \<Rightarrow> None)"

text \<open>\<open>multiLineCommentPattern\<close>: slash, star, and everything up to the first star, slash.\<close>

fun commentEnd :: "jsstring \<Rightarrow> nat option" where
  "commentEnd (a # b # cs) =
     (if a = 0x2A \<and> b = 0x2F then Some 2 else map_option Suc (commentEnd (b # cs)))"
| "commentEnd _ = None"

definition multiLineCommentPattern :: "jsstring \<Rightarrow> nat option" where
  "multiLineCommentPattern s =
     (case s of
        c # d # cs \<Rightarrow>
          if c = 0x2F \<and> d = 0x2A then map_option (\<lambda>n. n + 2) (commentEnd cs) else None
      | _ \<Rightarrow> None)"

text \<open>The pattern of the restoring step: \<^verbatim>\<open>__PRESERVED__\<close>, digits, two underscores.\<close>

definition placeholderPattern :: "jsstring \<Rightarrow> nat option" where
  "placeholderPattern s =
     (if take 13 s = js ''__PRESERVED__'' then
        (let ds = takeWhile isDigit (drop 13 s); rest = dropWhile isDigit (drop 13 s) in
         if ds \<noteq> [] \<and> take 2 rest = js ''__'' then Some (13 + length ds + 2) else None)
      else None)"

subsection \<open>removeComments\<close>

text \<open>A non-negative integer in a template literal, and \<open>Number\<close> of a string of digits.\<close>

fun toDecimal :: "nat \<Rightarrow> jsstring" where
  "toDecimal n =
     (if n < 10 then [js ''0123456789'' ! n]
      else toDecimal (n div 10) @ [js ''0123456789'' ! (n mod 10)])"

declare toDecimal.simps [simp del]

definition parseDecimal :: "jsstring \<Rightarrow> nat" where
  "parseDecimal ds = foldl (\<lambda>n c. 10 * n + (unat c - 48)) 0 ds"

text \<open>
  The callback of the two preserving replacements pushes the match and returns the
  placeholder with the index of the pushed item. The callback of the restoring
  replacement reads \<open>preservedItems[Number(index)]\<close>; an index outside the array
  gives \<open>undefined\<close>, which \<open>replace\<close> inserts as the text \<open>undefined\<close>.
\<close>

definition preserve :: "jsstring \<Rightarrow> jsstring list \<Rightarrow> jsstring \<times> jsstring list" where
  "preserve match preservedItems =
     (js ''__PRESERVED__'' @ toDecimal (length (preservedItems @ [match]) - 1) @ js ''__'',
      preservedItems @ [match])"

definition restore :: "jsstring list \<Rightarrow> jsstring \<Rightarrow> unit \<Rightarrow> jsstring \<times> unit" where
  "restore preservedItems match u =
     (let index = take (length match - 15) (drop 13 match); i = parseDecimal index in
      (if i < length preservedItems then preservedItems ! i else js ''undefined'', u))"

text \<open>The statement that replaces strings, then regex literals, by placeholders.\<close>

definition preserveLiterals :: "jsstring \<Rightarrow> jsstring \<times> jsstring list" where
  "preserveLiterals text =
     (case replaceAll stringPattern preserve text [] of
        (t1, items1) \<Rightarrow> replaceAll regexPattern preserve t1 items1)"

definition removeComments :: "jsstring \<Rightarrow> jsstring" where
  "removeComments text =
     (case preserveLiterals text of
        (preservedText, preservedItems) \<Rightarrow>
          (let preservedText1 = fst (replaceAll singleLineCommentPattern (\<lambda>m u. ([], u)) preservedText ());
               preservedText2 = fst (replaceAll multiLineCommentPattern (\<lambda>m u. ([], u)) preservedText1 ())
           in fst (replaceAll placeholderPattern (restore preservedItems) preservedText2 ())))"

subsection \<open>The processing of one file's content in readAllFiles\<close>

text \<open>
  \<open>path.extname\<close> of a POSIX path: the text from the last dot of the last path
  component on, empty when there is no dot, when the dot is the first character of the
  component, or when the component is \<open>..\<close>. \<open>toLowerCase\<close> is modelled on the
  letters A to Z; no other code unit maps to a letter of \<open>.js\<close> or \<open>.html\<close>.
\<close>

definition extname :: "jsstring \<Rightarrow> jsstring" where
  "extname path =
     (let trimmed = rev (dropWhile (\<lambda>c. c = 0x2F) (rev path));
          base = rev (takeWhile (\<lambda>c. c \<noteq> 0x2F) (rev trimmed));
          afterDot = takeWhile (\<lambda>c. c \<noteq> 0x2E) (rev base)
      in if length afterDot = length base then []
         else if Suc (length afterDot) = length base then []
         else if base = js ''..'' then []
         else drop (length base - Suc (length afterDot)) base)"

definition toLowerCase :: "jsstring \<Rightarrow> jsstring" where
  "toLowerCase s = map (\<lambda>c. if 0x41 \<le> c \<and> c \<le> 0x5A then c + 0x20 else c) s"

text \<open>
  The two \<open>if\<close> statements of \<open>readAllFiles\<close> between the reading of the file and
  the appending of its block.
\<close>

definition processContent :: "jsstring \<Rightarrow> bool \<Rightarrow> bool \<Rightarrow> jsstring \<Rightarrow> jsstring" where
  "processContent item removeWhitespaceSetting removeCommentsSetting fileContent =
     (let fileContent1 =
        (if removeWhitespaceSetting then removeWhitespace fileContent else fileContent)
      in if removeCommentsSetting \<and> toLowerCase (extname item) = js ''.js''
         then removeComments fileContent1 else fileContent1)"

text \<open>Where a text first has two slashes in a row, and whether it contains another text.\<close>

fun indexOfSlashes :: "jsstring \<Rightarrow> nat option" where
  "indexOfSlashes (a # b # cs) =
     (if a = 0x2F \<and> b = 0x2F then Some 0 else map_option Suc (indexOfSlashes (b # cs)))"
| "indexOfSlashes _ = None"

fun containsText :: "jsstring \<Rightarrow> jsstring \<Rightarrow> bool" where
  "containsText [] pat = (pat = [])"
| "containsText (c # cs) pat = (take (length pat) (c # cs) = pat \<or> containsText cs pat)"

section \<open>Objects\<close>

text \<open>
  The structure pass builds its tree out of plain objects: \<open>{}\<close> for a directory,
  filled by assignments \<open>fileStructure[item] = ...\<close>, and an object literal with the
  properties \<open>path\<close>, \<open>relativePath\<close>, \<open>size\<close> and \<open>lastModified\<close> for a file.
  An object is its own properties in the order of their creation and its prototype,
  \<open>None\<close> standing for \<open>Object.prototype\<close>. A \<open>Date\<close> is represented by the text
  it prints as, a number by a natural number (sizes are integers below \<open>2 ^ 53\<close>), and
  \<open>Function\<close> is a built-in method found on \<open>Object.prototype\<close>.
\<close>

datatype jsvalue =
    Undefined
  | Str jsstring
  | Num nat
  | Date jsstring
  | Function
  | Obj "(jsstring \<times> jsvalue) list" "jsvalue option"

definition objectPrototypeKeys :: "jsstring list" where
  "objectPrototypeKeys = map js [''constructor'', ''hasOwnProperty'', ''isPrototypeOf'',
     ''propertyIsEnumerable'', ''toLocaleString'', ''toString'', ''valueOf'',
     ''__defineGetter__'', ''__defineSetter__'', ''__lookupGetter__'', ''__lookupSetter__'']"

text \<open>
  Reading a property and the \<open>in\<close> operator follow the prototype chain. The program
  reads \<open>relativePath\<close>, \<open>size\<close>, \<open>lastModified\<close>, \<open>hasOwnProperty\<close> and, when
  it converts an object to a string, \<open>toString\<close>; the methods that are particular to
  dates, strings and functions are not among these and are left out.
\<close>

fun getProperty :: "jsvalue \<Rightarrow> jsstring \<Rightarrow> jsvalue" where
  "getProperty (Obj props proto) k =
     (case map_of props k of
        Some v \<Rightarrow> v
      | None \<Rightarrow>
          (case proto of
             Some p \<Rightarrow> getProperty p k
           | None \<Rightarrow> if k \<in> set objectPrototypeKeys then Function else Undefined))"
| "getProperty _ k = (if k \<in> set objectPrototypeKeys then Function else Undefined)"

fun hasProperty :: "jsvalue \<Rightarrow> jsstring \<Rightarrow> bool" where
  "hasProperty (Obj props proto) k =
     (case map_of props k of
        Some v \<Rightarrow> True
      | None \<Rightarrow>
          (case proto of
             Some p \<Rightarrow> hasProperty p k
           | None \<Rightarrow> k \<in> set objectPrototypeKeys \<or> k = js ''__proto__''))"
| "hasProperty _ k = (k \<in> set objectPrototypeKeys \<or> k = js ''__proto__'')"

fun typeof :: "jsvalue \<Rightarrow> jsstring" where
  "typeof Undefined = js ''undefined''"
| "typeof (Str _) = js ''string''"
| "typeof (Num _) = js ''number''"
| "typeof (Date _) = js ''object''"
| "typeof Function = js ''function''"
| "typeof (Obj _ _) = js ''object''"

text \<open>
  The assignment \<open>object[k] = v\<close>. An existing own property keeps its place; a new
  one is added behind the others. The key \<open>__proto__\<close> is the accessor of
  \<open>Object.prototype\<close>: assigning an object to it replaces the prototype and creates
  no property.
\<close>

fun assign :: "(jsstring \<times> jsvalue) list \<Rightarrow> jsstring \<Rightarrow> jsvalue \<Rightarrow> (jsstring \<times> jsvalue) list" where
  "assign [] k v = [(k, v)]"
| "assign ((k', v') # props) k v =
     (if k' = k then (k, v) # props else (k', v') # assign props k v)"

fun setProperty :: "jsvalue \<Rightarrow> jsstring \<Rightarrow> jsvalue \<Rightarrow> jsvalue" where
  "setProperty (Obj props proto) k v =
     (if k = js ''__proto__''
      then (if typeof v = js ''object'' \<or> typeof v = js ''function''
            then Obj props (Some v) else Obj props proto)
      else Obj (assign props k v) proto)"
| "setProperty other k v = other"

text \<open>
  The order in which \<open>for ... in\<close> visits the own properties of an object: first the
  keys that are array indices (canonical decimal numerals below \<open>2 ^ 32 - 1\<close>) in
  ascending numeric order, then all other keys in the order of their creation. The
  enumerable properties of the prototype chain follow.
\<close>

definition isArrayIndex :: "jsstring \<Rightarrow> bool" where
  "isArrayIndex k = (k \<noteq> [] \<and> list_all isDigit k \<and> (length k = 1 \<or> hd k \<noteq> 0x30)
     \<and> parseDecimal k < 4294967295)"

definition ownEntries :: "(jsstring \<times> jsvalue) list \<Rightarrow> (jsstring \<times> jsvalue) list" where
  "ownEntries props =
     sort_key (\<lambda>(k, v). parseDecimal k) (filter (\<lambda>(k, v). isArrayIndex k) props)
     @ filter (\<lambda>(k, v). \<not> isArrayIndex k) props"

fun forInKeys :: "jsvalue \<Rightarrow> jsstring list" where
  "forInKeys (Obj props proto) =
     map fst (ownEntries props)
     @ (case proto of
          None \<Rightarrow> []
        | Some p \<Rightarrow> filter (\<lambda>k. map_of props k = None) (forInKeys p))"
| "forInKeys (Str s) = map toDecimal [0 ..< length s]"
| "forInKeys _ = []"

text \<open>
  The conversion to a string inside a template literal. For an object it calls the
  method \<open>toString\<close>, which is \<open>Object.prototype.toString\<close> unless a property of
  that name hides it; a hidden \<open>toString\<close> is not callable here, \<open>valueOf\<close> does
  not return a primitive, and the conversion throws.
\<close>

fun toString :: "jsvalue \<Rightarrow> error + jsstring" where
  "toString Undefined = Inr (js ''undefined'')"
| "toString (Str s) = Inr s"
| "toString (Num n) = Inr (toDecimal n)"
| "toString (Date d) = Inr d"
| "toString Function = Inr (js ''function () { [native code] }'')"
| "toString (Obj props proto) =
     (if getProperty (Obj props proto) (js ''toString'') = Function
      then Inr (js ''[object Object]'')
      else Inl (TypeError (js ''Cannot convert object to primitive value'')))"

section \<open>Formatter\<close>

text \<open>The loop \<open>structureText += ...\<close> over the entries, stopped by the first exception.\<close>

fun concatResults :: "('a \<Rightarrow> error + jsstring) \<Rightarrow> 'a list \<Rightarrow> error + jsstring" where
  "concatResults f [] = Inr []"
| "concatResults f (x # xs) =
     (case f x of
        Inl e \<Rightarrow> Inl e
      | Inr s \<Rightarrow> (case concatResults f xs of Inl e \<Rightarrow> Inl e | Inr t \<Rightarrow> Inr (s @ t)))"

lemma concatResults_cong [fundef_cong]:
  "xs = ys \<Longrightarrow> (\<And>x. x \<in> set ys \<Longrightarrow> f x = g x) \<Longrightarrow> concatResults f xs = concatResults g ys"
  by (induction ys arbitrary: xs) (auto split: sum.splits)

lemma ownEntries_subset: "set (ownEntries props) \<subseteq> set props"
  by (auto simp: ownEntries_def)

lemma size_own_entry:
  "(k, v) \<in> set (ownEntries props) \<Longrightarrow> size v < Suc (size_list (size_prod (\<lambda>x. 0) size) props + n)"
proof -
  assume "(k, v) \<in> set (ownEntries props)"
  then have "(k, v) \<in> set props" using ownEntries_subset by blast
  then have "size v \<le> size_list (size_prod (\<lambda>x. 0) size) props"
    by (induction props) auto
  then show ?thesis by simp
qed

text \<open>
  \<open>formatStructure\<close>. The loop body runs for every key that \<open>for ... in\<close> visits and
  first calls \<open>fileStructure.hasOwnProperty\<close>, which throws when a property of that
  name hides the built-in method; inherited keys are then skipped, so the text is built
  from the own entries. An entry is printed as a file when its value is an object in
  which \<open>relativePath\<close> is found, and as a directory otherwise. The traversal stores
  objects only; on a value that is not an object the function returns the empty text,
  except that a non-empty string is descended into without end (each character is a
  string again) until the stack overflows.
\<close>

function formatStructure :: "jsvalue \<Rightarrow> nat \<Rightarrow> error + jsstring" where
  "formatStructure (Obj props proto) indent =
     (let fileStructure = Obj props proto; indentString = replicate indent 0x20 in
      if forInKeys fileStructure = [] then Inr []
      else if getProperty fileStructure (js ''hasOwnProperty'') \<noteq> Function
        then Inl (TypeError (js ''fileStructure.hasOwnProperty is not a function''))
      else concatResults
        (\<lambda>(key, v).
           if typeof v = js ''object'' \<and> hasProperty v (js ''relativePath'') then
             (case toString (getProperty v (js ''relativePath'')) of
                Inl e \<Rightarrow> Inl e
              | Inr relativePath \<Rightarrow>
             (case toString (getProperty v (js ''size'')) of
                Inl e \<Rightarrow> Inl e
              | Inr sizeText \<Rightarrow>
             (case toString (getProperty v (js ''lastModified'')) of
                Inl e \<Rightarrow> Inl e
              | Inr lastModified \<Rightarrow>
                  Inr (indentString @ key @ js '' (Path: '' @ relativePath
                       @ js '', Size: '' @ sizeText @ js '' bytes, Last Modified: ''
                       @ lastModified @ js '')'' @ [0x0A]))))
           else
             (case formatStructure v (indent + 2) of
                Inl e \<Rightarrow> Inl e
              | Inr sub \<Rightarrow> Inr (indentString @ key @ js ''/'' @ [0x0A] @ sub)))
        (ownEntries props))"
| "formatStructure (Str s) indent =
     (if s = [] then Inr [] else Inl (RangeError (js ''Maximum call stack size exceeded'')))"
| "formatStructure Undefined indent = Inr []"
| "formatStructure (Num n) indent = Inr []"
| "formatStructure (Date d) indent = Inr []"
| "formatStructure Function indent = Inr []"
  by pat_completeness auto
termination
  by (relation "measure (\<lambda>(v, i). size v)") (auto intro: size_own_entry)

section \<open>Tree walker\<close>

text \<open>
  What the program takes from its libraries is a parameter of the model: the working
  directory, \<open>path.join\<close> and \<open>path.relative\<close>, the matcher of the \<open>ignore\<close>
  package (it answers for the sequence of \<open>add\<close> calls that built the instance) and
  the decoding of UTF-8.
\<close>

datatype ignore_call = AddText jsstring | AddPatterns "jsstring list"

record env =
  cwd :: jsstring
  pathJoin :: "jsstring \<Rightarrow> jsstring \<Rightarrow> jsstring"
  pathRelative :: "jsstring \<Rightarrow> jsstring \<Rightarrow> jsstring"
  ignores :: "ignore_call list \<Rightarrow> jsstring \<Rightarrow> bool"
  utf8 :: "byte list \<Rightarrow> jsstring"

definition processAllFiles :: bool where
  "processAllFiles = True"

definition TARGET_EXTENSIONS :: "jsstring list" where
  "TARGET_EXTENSIONS = map js [''.html'', ''.js'']"

definition SENSITIVE_FILES :: "jsstring list" where
  "SENSITIVE_FILES = map js
     [''.env'', ''.npmrc'', ''.yarnrc'', ''.credentials'', ''.aws'', ''.gcp'', ''.azure'',
      ''*.sqlite'', ''*.sqlite3'', ''*.db'', ''*.db-journal'', ''*.sql'', ''*.bak'',
      ''*.pem'', ''*.key'', ''*.crt'', ''*.csr'', ''secrets.json'']"

definition EXCLUDE_DIRS :: "jsstring list" where
  "EXCLUDE_DIRS = map js
     [''.git'', ''.hg'', ''.svn'', ''.bzr'', ''node_modules'', ''vendor'',
      ''bower_components'', ''__pycache__'', ''dist'', ''build'', ''.cache'',
      ''out'', ''target'', ''.next'', ''.nuxt'', ''.idea'', ''.vscode'',
      ''.history'', ''.sass-cache'', ''.pytest_cache'']"

definition EXCLUDE_FILES :: "jsstring list" where
  "EXCLUDE_FILES = map js
     [''.DS_Store'', ''Thumbs.db'', ''*.log'', ''*.log.*'',
      ''*.bak'', ''*.swp'', ''*.tmp'', ''*~'', ''package-lock.json'', ''package.json'']"

subsection \<open>File-system calls\<close>

datatype statinfo = DirectoryStats | FileStats stats

fun statSync :: "fsnode \<Rightarrow> error + statinfo" where
  "statSync (File st content) = Inr (FileStats st)"
| "statSync (Dir listing) = Inr DirectoryStats"
| "statSync (NoStat m) = Inl (SystemError m)"

fun readdirSync :: "jsstring \<Rightarrow> fsnode \<Rightarrow> error + (jsstring \<times> fsnode) list" where
  "readdirSync dir (Dir (Inr items)) = Inr items"
| "readdirSync dir (Dir (Inl m)) = Inl (SystemError m)"
| "readdirSync dir (File st content) =
     Inl (SystemError (js ''ENOTDIR: not a directory, scandir '' @ 0x27 # dir @ [0x27]))"
| "readdirSync dir (NoStat m) = Inl (SystemError m)"

fun lookupChild :: "fsnode \<Rightarrow> jsstring \<Rightarrow> fsnode option" where
  "lookupChild (Dir (Inr items)) name = map_of items name"
| "lookupChild _ name = None"

fun existsSync :: "fsnode option \<Rightarrow> bool" where
  "existsSync None = False"
| "existsSync (Some (NoStat m)) = False"
| "existsSync (Some _) = True"

subsection \<open>getIgnorePatterns and shouldProcessFile\<close>

definition getIgnorePatterns :: "env \<Rightarrow> fsnode \<Rightarrow> error + ignore_call list" where
  "getIgnorePatterns env dir =
     (let gitignorePath = lookupChild dir (js ''.gitignore'');
          predefined = AddPatterns (EXCLUDE_DIRS @ SENSITIVE_FILES @ EXCLUDE_FILES) in
      case gitignorePath of
        None \<Rightarrow> Inr [predefined]
      | Some gitignore \<Rightarrow>
          if existsSync gitignorePath then
            (case readFileSync gitignore of
               Inl e \<Rightarrow> Inl e
             | Inr gitignoreContent \<Rightarrow> Inr [AddText (utf8 env gitignoreContent), predefined])
          else Inr [predefined])"

definition shouldProcessFile :: "jsstring \<Rightarrow> bool" where
  "shouldProcessFile file =
     (if processAllFiles then True
      else toLowerCase (extname file) \<in> set TARGET_EXTENSIONS)"

subsection \<open>The two passes\<close>

text \<open>
  A pass returns the lines it has written with \<open>console.warn\<close> and either the
  exception that ended it or its result. \<open>forEach\<close> runs the callback on every item
  with the variable the callback updates (\<open>fileStructure\<close>, \<open>allText\<close>); a
  \<open>return\<close> inside the callback goes on with the next item, an exception ends the
  loop. Every item of a listing is paired with the node found under its name.
\<close>

type_synonym 'a result = "jsstring list \<times> (error + 'a)"

fun forEach :: "('a \<Rightarrow> 's \<Rightarrow> 's result) \<Rightarrow> 'a list \<Rightarrow> 's \<Rightarrow> 's result" where
  "forEach f [] st = ([], Inr st)"
| "forEach f (x # xs) st =
     (case f x st of
        (w, Inl e) \<Rightarrow> (w, Inl e)
      | (w, Inr st') \<Rightarrow> (case forEach f xs st' of (w', r) \<Rightarrow> (w @ w', r)))"

lemma forEach_cong [fundef_cong]:
  "xs = ys \<Longrightarrow> st = st' \<Longrightarrow> (\<And>x s. x \<in> set ys \<Longrightarrow> f x s = g x s)
   \<Longrightarrow> forEach f xs st = forEach g ys st'"
  by (induction ys arbitrary: xs st st') (auto split: sum.splits prod.splits)

lemma size_child:
  "readdirSync dir node = Inr items \<Longrightarrow> (item, child) \<in> set items \<Longrightarrow> size child < size node"
proof -
  assume r: "readdirSync dir node = Inr items" and m: "(item, child) \<in> set items"
  from m have "size child \<le> size_list (size_prod (\<lambda>x. 0) size) items"
    by (induction items) auto
  moreover from r have "node = Dir (Inr items)"
    by (cases "(dir, node)" rule: readdirSync.cases) auto
  ultimately show ?thesis by simp
qed

text \<open>
  \<open>getDirectoryStructure\<close>. For a subdirectory the source stores \<open>{}\<close> under the
  name and fills that object in the recursive call; the model fills the object first
  and stores it then, which gives the same object in the same place (also for the name
  \<open>__proto__\<close>, where the object read back is the prototype that was just set).
\<close>

function getDirectoryStructure ::
  "env \<Rightarrow> jsstring \<Rightarrow> fsnode \<Rightarrow> jsvalue \<Rightarrow> jsstring \<Rightarrow> ignore_call list \<Rightarrow> jsvalue result"
where
  "getDirectoryStructure env dir node fileStructure parentPath ig =
     (case readdirSync dir node of
        Inl e \<Rightarrow> ([], Inl e)
      | Inr items \<Rightarrow>
          forEach
            (\<lambda>(item, child) fileStructure.
               let fullPath = pathJoin env dir item;
                   relativePath = pathRelative env (cwd env) fullPath in
               if ignores env ig relativePath then ([], Inr fileStructure)
               else
                 (case statSync child of
                    Inl e \<Rightarrow> ([], Inl e)
                  | Inr DirectoryStats \<Rightarrow>
                      (case getDirectoryStructure env fullPath child (Obj [] None)
                              (pathJoin env parentPath item) ig of
                         (w, Inl e) \<Rightarrow> (w, Inl e)
                       | (w, Inr sub) \<Rightarrow> (w, Inr (setProperty fileStructure item sub)))
                  | Inr (FileStats st) \<Rightarrow>
                      if shouldProcessFile item then
                        (case isBinaryFile child of
                           Inl e \<Rightarrow> ([], Inl e)
                         | Inr True \<Rightarrow>
                             ([js ''Skipping binary file: '' @ relativePath], Inr fileStructure)
                         | Inr False \<Rightarrow>
                             ([], Inr (setProperty fileStructure item
                                (Obj [(js ''path'', Str fullPath),
                                      (js ''relativePath'', Str (pathJoin env parentPath item)),
                                      (js ''size'', Num (st_size st)),
                                      (js ''lastModified'', Date (st_mtime st))] None))))
                      else ([], Inr fileStructure)))
            items fileStructure)"
  by pat_completeness auto
termination
  by (relation "measure (\<lambda>(env, dir, node, rest). size node)") (auto intro: size_child)

declare getDirectoryStructure.simps [simp del]

text \<open>
  \<open>readAllFiles\<close>, the same descent with the same three filters; a kept file is
  read a second time, as text, and its block is appended to \<open>allText\<close>.
\<close>

function readAllFiles ::
  "env \<Rightarrow> jsstring \<Rightarrow> fsnode \<Rightarrow> jsstring \<Rightarrow> bool \<Rightarrow> bool \<Rightarrow> ignore_call list \<Rightarrow> jsstring result"
where
  "readAllFiles env dir node parentPath removeWhitespaceSetting removeCommentsSetting ig =
     (case readdirSync dir node of
        Inl e \<Rightarrow> ([], Inl e)
      | Inr items \<Rightarrow>
          forEach
            (\<lambda>(item, child) allText.
               let fullPath = pathJoin env dir item;
                   relativePath = pathRelative env (cwd env) fullPath in
               if ignores env ig relativePath then ([], Inr allText)
               else
                 (case statSync child of
                    Inl e \<Rightarrow> ([], Inl e)
                  | Inr DirectoryStats \<Rightarrow>
                      (case readAllFiles env fullPath child (pathJoin env parentPath item)
                              removeWhitespaceSetting removeCommentsSetting ig of
                         (w, Inl e) \<Rightarrow> (w, Inl e)
                       | (w, Inr sub) \<Rightarrow> (w, Inr (allText @ sub)))
                  | Inr (FileStats st) \<Rightarrow>
                      if shouldProcessFile item then
                        (case isBinaryFile child of
                           Inl e \<Rightarrow> ([], Inl e)
                         | Inr True \<Rightarrow>
                             ([js ''Skipping binary file: '' @ relativePath], Inr allText)
                         | Inr False \<Rightarrow>
                             (case readFileSync child of
                                Inl e \<Rightarrow> ([], Inl e)
                              | Inr bytes \<Rightarrow>
                                  (let fileContent = processContent item removeWhitespaceSetting
                                         removeCommentsSetting (utf8 env bytes) in
                                   ([], Inr (allText @ js ''File: '' @ item @ [0x0A]
                                      @ js ''Path: '' @ pathJoin env parentPath item @ [0x0A, 0x0A]
                                      @ fileContent @ [0x0A, 0x0A])))))
                      else ([], Inr allText)))
            items [])"
  by pat_completeness auto
termination
  by (relation "measure (\<lambda>(env, dir, node, rest). size node)") (auto intro: size_child)

declare readAllFiles.simps [simp del]

section \<open>Main block\<close>

text \<open>
  The \<open>try\<close> block and its \<open>catch\<close>. The file system is read over time and may
  change, so the run takes what the structure pass sees and what the content pass
  sees, and whether the final \<open>writeFileSync\<close> fails. The \<open>catch\<close> writes one
  line with \<open>console.error\<close> and returns; nothing sets an exit code, so the process
  ends with status 0 in every case.
\<close>

datatype written = NotWritten | Written jsstring | WriteFailed

record outcome =
  outputFile :: written
  stdout :: "jsstring list"
  stderr :: "jsstring list"
  exitCode :: nat

definition caught :: "jsstring list \<Rightarrow> error \<Rightarrow> outcome" where
  "caught warnings e =
     \<lparr>outputFile = NotWritten, stdout = [],
      stderr = warnings @ [js ''Error processing directory: '' @ message e], exitCode = 0\<rparr>"

definition main :: "env \<Rightarrow> fsnode \<Rightarrow> fsnode \<Rightarrow> jsstring option \<Rightarrow> outcome" where
  "main env structureView contentView writeError =
     (let targetDir = cwd env;
          outputFilePath = pathJoin env targetDir (js ''output.txt'');
          removeWhitespaceSetting = False;
          removeCommentsSetting = False in
      case getIgnorePatterns env structureView of
        Inl e \<Rightarrow> caught [] e
      | Inr ig \<Rightarrow>
      (case getDirectoryStructure env targetDir structureView (Obj [] None) [] ig of
        (w1, Inl e) \<Rightarrow> caught w1 e
      | (w1, Inr fileStructure) \<Rightarrow>
      (case formatStructure fileStructure 0 of
        Inl e \<Rightarrow> caught w1 e
      | Inr structureText \<Rightarrow>
      (case readAllFiles env targetDir contentView [] removeWhitespaceSetting removeCommentsSetting ig of
        (w2, Inl e) \<Rightarrow> caught (w1 @ w2) e
      | (w2, Inr filesText) \<Rightarrow>
          (let finalOutput = js ''Directory Structure:'' @ [0x0A] @ structureText @ [0x0A]
                 @ js ''File Contents:'' @ [0x0A] @ filesText in
           case writeError of
             Some m \<Rightarrow> (caught (w1 @ w2) (SystemError m))\<lparr>outputFile := WriteFailed\<rparr>
           | None \<Rightarrow>
               \<lparr>outputFile = Written finalOutput,
                stdout = [js ''Folder structure and file contents have been saved to '' @ outputFilePath],
                stderr = w1 @ w2, exitCode = 0\<rparr>)))))"

section \<open>Example inputs\<close>

text \<open>
  A POSIX environment with the working directory \<open>/repo\<close>: \<open>path.join\<close> and
  \<open>path.relative\<close> as they act on the paths of a walk below the working directory
  (normalised, names without a slash), the decoding of ASCII bytes, and a matcher for
  which no path of the examples below is ignored (the predefined patterns match none of
  them). The trees are working directories with text files of one or two bytes.
\<close>

definition posix :: env where
  "posix = \<lparr>cwd = js ''/repo'',
     pathJoin = (\<lambda>a b. if a = [] then b else if b = [] then a else a @ js ''/'' @ b),
     pathRelative = (\<lambda>from to. drop (Suc (length from)) to),
     ignores = (\<lambda>calls p. False),
     utf8 = map ucast\<rparr>"

definition textFile :: "nat \<Rightarrow> string \<Rightarrow> fsnode" where
  "textFile n s = File \<lparr>st_size = n, st_mtime = js ''Thu Jan 01 1970''\<rparr> (Inr (map of_char s))"

definition numberedTree :: fsnode where
  "numberedTree = Dir (Inr [(js ''10'', textFile 1 ''a''), (js ''9'', textFile 1 ''b'')])"

definition packageTree :: fsnode where
  "packageTree =
     Dir (Inr [(js ''src'', Dir (Inr [(js ''relativePath'', Dir (Inr [(js ''index.js'', textFile 2 ''x;'')]))]))])"

definition vanishedTree :: fsnode where
  "vanishedTree =
     Dir (Inr [(js ''a.txt'', textFile 1 ''a''), (js ''gone'', NoStat (js ''ENOENT: no such file or directory, stat /repo/gone''))])"

definition lockedTree :: fsnode where
  "lockedTree =
     Dir (Inr [(js ''a.txt'', textFile 1 ''a''), (js ''private'', Dir (Inl (js ''EACCES: permission denied, scandir /repo/private'')))])"

definition protoTree :: fsnode where
  "protoTree = Dir (Inr [(js ''__proto__'', textFile 1 ''a'')])"

text \<open>
  A working directory with one text file, and one with a second file that \<open>statSync\<close>
  can examine but that cannot be opened for reading.
\<close>

definition readableTree :: fsnode where
  "readableTree = Dir (Inr [(js ''a.txt'', textFile 1 ''a'')])"

definition unreadableTree :: fsnode where
  "unreadableTree =
     Dir (Inr [(js ''a.txt'', textFile 1 ''a''),
               (js ''key.txt'', File \<lparr>st_size = 4, st_mtime = js ''Thu Jan 01 1970''\<rparr>
                  (Inl (js ''EACCES: permission denied, open /repo/key.txt'')))])"

section \<open>The listing as the specification words it\<close>

text \<open>
  The data model of the specification: a node is a file entry or a directory node, a
  directory node maps child names to nodes in the order of the traversal. \<open>render\<close>
  is the formatter in the words of the specification: one line for a file entry, the
  name and a slash for a directory node, followed by its children with the indent
  increased by 2. \<open>toObject\<close> is the object that stands for a node. A name is plain
  when the formatter of the program treats a property of that name like any other.
\<close>

datatype tree = FileEntry jsstring jsstring nat jsstring | DirectoryNode "(jsstring \<times> tree) list"

fun toObject :: "tree \<Rightarrow> jsvalue" where
  "toObject (FileEntry p r s m) =
     Obj [(js ''path'', Str p), (js ''relativePath'', Str r), (js ''size'', Num s),
          (js ''lastModified'', Date m)] None"
| "toObject (DirectoryNode children) = Obj (map (\<lambda>(name, t). (name, toObject t)) children) None"

fun render :: "nat \<Rightarrow> jsstring \<times> tree \<Rightarrow> jsstring" where
  "render indent (name, FileEntry p r s m) =
     replicate indent 0x20 @ name @ js '' (Path: '' @ r @ js '', Size: '' @ toDecimal s
     @ js '' bytes, Last Modified: '' @ m @ js '')'' @ [0x0A]"
| "render indent (name, DirectoryNode children) =
     replicate indent 0x20 @ name @ js ''/'' @ [0x0A] @ concat (map (render (indent + 2)) children)"

definition plainName :: "jsstring \<Rightarrow> bool" where
  "plainName k = (\<not> isArrayIndex k \<and> k \<noteq> js ''relativePath'' \<and> k \<noteq> js ''hasOwnProperty''
     \<and> k \<noteq> js ''__proto__'')"

fun plainTree :: "tree \<Rightarrow> bool" where
  "plainTree (FileEntry p r s m) = True"
| "plainTree (DirectoryNode children) = list_all (\<lambda>(name, t). plainName name \<and> plainTree t) children"

section \<open>The I/O errors of a traversal as the specification words them\<close>

text \<open>
  The specification calls fatal every I/O error met during the traversal: a directory
  that cannot be listed, a path whose \<open>stat\<close> fails, a file that cannot be read.
  \<open>traversalError\<close> reads this off the file system alone, without the two passes:
  it is the first such error on a walk through the listing of the directory, in listing
  order and depth first, where an ignored entry is not examined at all. \<open>firstError\<close>
  is the first error among the entries of one listing.
\<close>

fun firstError :: "('a \<Rightarrow> error option) \<Rightarrow> 'a list \<Rightarrow> error option" where
  "firstError f [] = None"
| "firstError f (x # xs) = (case f x of Some e \<Rightarrow> Some e | None \<Rightarrow> firstError f xs)"

lemma firstError_cong [fundef_cong]:
  "xs = ys \<Longrightarrow> (\<And>x. x \<in> set ys \<Longrightarrow> f x = g x) \<Longrightarrow> firstError f xs = firstError g ys"
  by (induction ys arbitrary: xs) (auto split: option.splits)

lemma size_entry:
  "(item :: jsstring, Dir listing) \<in> set items \<Longrightarrow>
   size_sum (\<lambda>x. 0) (size_list (size_prod (\<lambda>x. 0) size)) listing
     < Suc (size_list (size_prod (\<lambda>x. 0) size) items)"
  using size_child[of "[]" "Dir (Inr items)" items item "Dir listing"] by simp

function traversalError :: "env \<Rightarrow> ignore_call list \<Rightarrow> jsstring \<Rightarrow> fsnode \<Rightarrow> error option" where
  "traversalError env ig dir (Dir (Inl m)) = Some (SystemError m)"
| "traversalError env ig dir (Dir (Inr items)) =
     firstError
       (\<lambda>(item, child).
          if ignores env ig (pathRelative env (cwd env) (pathJoin env dir item)) then None
          else (case child of
                  NoStat m \<Rightarrow> Some (SystemError m)
                | File st (Inl m) \<Rightarrow> Some (SystemError m)
                | File st (Inr bytes) \<Rightarrow> None
                | Dir listing \<Rightarrow> traversalError env ig (pathJoin env dir item) child))
       items"
| "traversalError env ig dir (File st content) =
     Some (SystemError (js ''ENOTDIR: not a directory, scandir '' @ 0x27 # dir @ [0x27]))"
| "traversalError env ig dir (NoStat m) = Some (SystemError m)"
  by pat_completeness auto
termination
  by (relation "measure (\<lambda>(env, ig, dir, node). size node)")
     (auto intro: size_entry)

section \<open>Notions used in the proofs\<close>

text \<open>
  The first step of \<open>removeWhitespace\<close> on its own, and the texts it produces: every
  white-space character is a single space and is not followed by another one.
\<close>

definition collapse :: "jsstring \<Rightarrow> jsstring" where
  "collapse s = fst (replaceAll whitespaceRun (\<lambda>m u. (js '' '', u)) s ())"

fun wsNormal :: "jsstring \<Rightarrow> bool" where
  "wsNormal (a # b # cs) = ((isSpace a \<longrightarrow> a = 0x20 \<and> \<not> isSpace b) \<and> wsNormal (b # cs))"
| "wsNormal [a] = (isSpace a \<longrightarrow> a = 0x20)"
| "wsNormal [] = True"

text \<open>
  Two passes agree when they have written the same warnings and have either thrown the
  same exception or both returned.
\<close>

fun agree :: "'a result \<Rightarrow> 'b result \<Rightarrow> bool" where
  "agree (w, Inl e) (w', Inl e') = (w = w' \<and> e = e')"
| "agree (w, Inr x) (w', Inr y) = (w = w')"
| "agree _ _ = False"

text \<open>The exception that ended a pass, if one did.\<close>

fun thrown :: "'a result \<Rightarrow> error option" where
  "thrown (w, Inl e) = Some e"
| "thrown (w, Inr x) = None"

section \<open>Properties of the binary detector\<close>

subsection \<open>Rounding\<close>

lemma round_even_err: "\<bar>of_int (round_even x) - x\<bar> \<le> 1/2"
proof -
  define f where "f = \<lfloor>x\<rfloor>"
  have "of_int f \<le> x" "x < of_int f + 1" unfolding f_def by linarith+
  then show ?thesis
    unfolding round_even_def Let_def f_def[symmetric] by (simp add: abs_if)
qed

lemma ups_reaches: "0 < q \<Longrightarrow> 2 ^ 52 \<le> q * 2 ^ f \<Longrightarrow> 2 ^ 52 \<le> q * 2 ^ ups f q"
proof (induction f arbitrary: q)
  case 0
  then show ?case by simp
next
  case (Suc f)
  show ?case
  proof (cases "2 ^ 52 \<le> q")
    case True
    then show ?thesis by simp
  next
    case False
    have "2 ^ 52 \<le> (2 * q) * 2 ^ ups f (2 * q)"
      using Suc.prems by (intro Suc.IH) (simp_all add: mult.assoc mult.left_commute)
    with False show ?thesis by (simp add: mult.assoc mult.left_commute)
  qed
qed

lemma fl_err:
  assumes "0 < q" "2 ^ 52 \<le> q * 2 ^ 1074"
  shows "\<bar>fl q - q\<bar> \<le> q / 2 ^ 53"
proof -
  define i where "i = ups 1074 q"
  have big: "2 ^ 52 \<le> q * 2 ^ i"
    unfolding i_def using assms by (rule ups_reaches)
  have e: "\<bar>of_int (round_even (q * 2 ^ i)) - q * 2 ^ i\<bar> \<le> 1/2"
    by (rule round_even_err)
  have "fl q - q = (of_int (round_even (q * 2 ^ i)) - q * 2 ^ i) / 2 ^ i"
    unfolding fl_def i_def Let_def by (simp add: field_simps)
  then have "\<bar>fl q - q\<bar> = \<bar>of_int (round_even (q * 2 ^ i)) - q * 2 ^ i\<bar> / 2 ^ i"
    by (simp add: abs_divide)
  also have "\<dots> \<le> (1/2) / 2 ^ i"
    by (rule divide_right_mono[OF e]) simp
  also have "\<dots> \<le> q / 2 ^ 53"
  proof -
    have "(1::rat) / 2 ^ i \<le> q / 2 ^ 52" using big by (simp add: field_simps)
    then show ?thesis by simp
  qed
  finally show ?thesis .
qed

lemma fl_three_tenths: "fl (3/10) = lit_0_3"
  unfolding fl_def lit_0_3_def by code_simp

lemma fl_zero: "fl 0 = 0"
  unfolding fl_def round_even_def by simp

text \<open>
  On the quotients the detector can form (at most 8000 bytes examined) the comparison
  of doubles agrees with the exact comparison of the fraction with three tenths.
\<close>

lemma fl_ratio_gt:
  assumes "0 < n" "n \<le> 8000" "k \<le> n"
  shows "(lit_0_3 < fl (of_nat k / of_nat n)) = (3 * n < 10 * k)"
proof (cases "k = 0")
  case True
  then show ?thesis by (simp add: fl_zero lit_0_3_def)
next
  case False
  define q :: rat where "q = of_nat k / of_nat n"
  define eps :: rat where "eps = 1 / 2 ^ 53"
  have qpos: "0 < q" using False assms by (simp add: q_def)
  have qle: "q \<le> 1" using assms by (simp add: q_def)
  have q8: "1 / 8000 \<le> q"
  proof -
    have "(1::rat) / 8000 \<le> 1 / of_nat n" using assms by (simp add: field_simps)
    also have "\<dots> \<le> q" using False assms by (simp add: q_def field_simps)
    finally show ?thesis .
  qed
  have "2 ^ 52 \<le> q * 2 ^ 65" using q8 by simp
  moreover have "q * 2 ^ 65 \<le> q * 2 ^ 1074"
    using qpos by (intro mult_left_mono power_increasing) simp_all
  ultimately have "2 ^ 52 \<le> q * 2 ^ 1074" by (rule order_trans)
  from fl_err[OF qpos this] have "\<bar>fl q - q\<bar> \<le> q / 2 ^ 53" .
  moreover have "q / 2 ^ 53 \<le> eps"
    unfolding eps_def by (rule divide_right_mono[OF qle]) simp
  ultimately have "\<bar>fl q - q\<bar> \<le> eps" by (rule order_trans)
  then have lo: "q - eps \<le> fl q" and hi: "fl q \<le> q + eps"
    by (simp_all add: abs_le_iff)
  have c1: "lit_0_3 + eps < 3/10 + 1/80000" and c2: "3/10 - 1/80000 + eps < lit_0_3"
    by (simp_all add: lit_0_3_def eps_def)
  have n8: "(1::rat) / 80000 \<le> 1 / (10 * of_nat n)"
    using assms by (simp add: field_simps)
  consider "3 * n < 10 * k" | "3 * n = 10 * k" | "10 * k < 3 * n" by linarith
  then show ?thesis
  proof cases
    case 1
    then have "3 * n + 1 \<le> 10 * k" by simp
    then have "of_nat (3 * n + 1) \<le> (of_nat (10 * k) :: rat)" by (simp only: of_nat_le_iff)
    then have "3 * of_nat n + 1 \<le> 10 * (of_nat k :: rat)" by simp
    then have "(3 * of_nat n + 1) / (10 * of_nat n) \<le> (10 * of_nat k) / (10 * (of_nat n :: rat))"
      by (rule divide_right_mono) simp
    moreover have "(3 * of_nat n + 1) / (10 * of_nat n) = 3/10 + 1 / (10 * (of_nat n :: rat))"
      using assms by (simp add: add_divide_distrib)
    ultimately have "3/10 + 1 / (10 * of_nat n) \<le> q" by (simp add: q_def)
    with n8 c1 lo have "lit_0_3 < fl q" by linarith
    with 1 show ?thesis by (simp add: q_def)
  next
    case 2
    then have "of_nat (3 * n) = (of_nat (10 * k) :: rat)" by simp
    then have "3 * of_nat n = 10 * (of_nat k :: rat)" by simp
    then have "q = 3/10" using assms by (simp add: q_def field_simps)
    then have "fl q = lit_0_3" by (simp only: fl_three_tenths)
    then have "\<not> lit_0_3 < fl (of_nat k / of_nat n)" unfolding q_def by simp
    with 2 show ?thesis by simp
  next
    case 3
    then have "10 * k + 1 \<le> 3 * n" by simp
    then have "of_nat (10 * k + 1) \<le> (of_nat (3 * n) :: rat)" by (simp only: of_nat_le_iff)
    then have "10 * of_nat k + 1 \<le> 3 * (of_nat n :: rat)" by simp
    then have "(10 * of_nat k + 1) / (10 * of_nat n) \<le> (3 * of_nat n) / (10 * (of_nat n :: rat))"
      by (rule divide_right_mono) simp
    moreover have "(10 * of_nat k + 1) / (10 * of_nat n) = q + 1 / (10 * (of_nat n :: rat))"
      using assms by (simp add: add_divide_distrib q_def)
    moreover have "(3 * of_nat n) / (10 * (of_nat n :: rat)) = 3/10" using assms by simp
    ultimately have "q \<le> 3/10 - 1 / (10 * of_nat n)" by linarith
    with n8 c2 hi have "fl q < lit_0_3" by linarith
    with 3 show ?thesis by (simp add: q_def)
  qed
qed

lemma ratio_gt:
  assumes "n \<le> 8000" "k \<le> n"
  shows "js_gt (js_div k n) (Finite lit_0_3) = (3 * n < 10 * k)"
proof (cases "n = 0")
  case True
  with assms show ?thesis by (simp add: js_div_def)
next
  case False
  with assms fl_ratio_gt[of n k] show ?thesis by (simp add: js_div_def)
qed

subsection \<open>The loop\<close>

text \<open>
  From index \<open>i\<close> on, the loop returns early exactly when a null byte is among the
  bytes still to be examined, and otherwise adds the number of those that pass the
  test of its body.
\<close>

lemma isBinaryFile_loop_eq:
  assumes "n \<le> length buffer"
  shows "isBinaryFile_loop buffer n i c =
    (if 0 \<in> set (drop i (take n buffer)) then ReturnTrue
     else Completed (c + length (filter nonText (drop i (take n buffer)))))"
  using assms
proof (induction buffer n i c rule: isBinaryFile_loop.induct)
  case (1 buffer n i c)
  show ?case
  proof (cases "i < n")
    case False
    then show ?thesis by (subst isBinaryFile_loop.simps) simp
  next
    case True
    with "1.prems" have d: "drop i (take n buffer) = buffer ! i # drop (Suc i) (take n buffer)"
      by (metis Cons_nth_drop_Suc length_take min.absorb2 nth_take)
    show ?thesis
    proof (cases "buffer ! i = 0")
      case z: True
      with True d show ?thesis by (subst isBinaryFile_loop.simps) simp
    next
      case nz: False
      from "1.IH"[OF True refl nz "1.prems"] True nz d show ?thesis
        by (subst isBinaryFile_loop.simps) (simp add: Let_def)
    qed
  qed
qed

lemma count_le: "length (filter P (take n xs)) \<le> min (length xs) n"
  by (metis length_filter_le length_take)

text \<open>The detector on a readable file without a null byte among the examined bytes.\<close>

lemma isBinaryFile_no_null:
  assumes "0 \<notin> set (take maxBytes buffer)"
  shows "isBinaryFile (File st (Inr buffer)) =
    Inr (3 * min (length buffer) maxBytes < 10 * length (filter nonText (take maxBytes buffer)))"
proof -
  let ?n = "min (length buffer) maxBytes"
  have t: "take ?n buffer = take maxBytes buffer" by (simp add: min_def)
  have "isBinaryFile_loop buffer ?n 0 0 = Completed (length (filter nonText (take maxBytes buffer)))"
    using assms by (subst isBinaryFile_loop_eq) (simp_all add: t)
  moreover have "js_gt (js_div (length (filter nonText (take maxBytes buffer))) ?n) (Finite lit_0_3)
      = (3 * ?n < 10 * length (filter nonText (take maxBytes buffer)))"
    by (rule ratio_gt[OF _ count_le]) (simp add: maxBytes_def)
  ultimately show ?thesis by (simp add: isBinaryFile_def Let_def)
qed

subsection \<open>Claims\<close>

text \<open>
  C3. When no null byte is among the examined bytes (the first 8000 of the file), the
  counter of \<open>isBinaryFile\<close> ends as the number of examined bytes \<open>b\<close> with
  \<open>b < 7\<close> or \<open>14 < b < 32\<close>: a byte is counted if and only if it satisfies that
  condition, so no byte from 7 to 14 (tab, newline and carriage return among them) and
  no byte from 32 on is counted.
\<close>

theorem isBinaryFile_counts_nonText:
  assumes "0 \<notin> set (take maxBytes buffer)"
  shows "isBinaryFile_loop buffer (min (length buffer) maxBytes) 0 0 =
           Completed (length (filter (\<lambda>b. b < 7 \<or> (14 < b \<and> b < 32)) (take maxBytes buffer)))
         \<and> nonText b = (b < 7 \<or> (14 < b \<and> b < 32))
         \<and> \<not> (7 \<le> b \<and> b \<le> 14 \<and> nonText b) \<and> \<not> (32 \<le> b \<and> nonText b)"
proof -
  have iff: "nonText = (\<lambda>b. b < 7 \<or> (14 < b \<and> b < 32))"
    unfolding nonText_def by auto
  let ?n = "min (length buffer) maxBytes"
  have t: "take ?n buffer = take maxBytes buffer" by (simp add: min_def)
  have "isBinaryFile_loop buffer ?n 0 0 = Completed (length (filter nonText (take maxBytes buffer)))"
    using assms by (subst isBinaryFile_loop_eq) (simp_all add: t)
  then have "isBinaryFile_loop buffer ?n 0 0 =
      Completed (length (filter (\<lambda>b. b < 7 \<or> (14 < b \<and> b < 32)) (take maxBytes buffer)))"
    by (simp only: iff)
  moreover have "\<not> (7 \<le> b \<and> b \<le> 14 \<and> nonText b)" "\<not> (32 \<le> b \<and> nonText b)"
    unfolding nonText_def by (auto simp: word_le_nat_alt word_less_nat_alt)
  ultimately show ?thesis by (simp add: iff)
qed

theorem isBinaryFile_counts_nonText_witness:
  "isBinaryFile_loop [1, 9, 10, 13, 14, 20, 65] (min (length [1, 9, 10, 13, 14, 20, 65 :: byte]) maxBytes) 0 0
     = Completed 2
   \<and> nonText 20 \<and> \<not> nonText 9 \<and> \<not> nonText 65"
proof -
  have h: "0 \<notin> set (take maxBytes [1, 9, 10, 13, 14, 20, 65 :: byte])"
    by (simp add: maxBytes_def)
  from isBinaryFile_counts_nonText[OF h, of 20] isBinaryFile_counts_nonText[OF h, of 9]
    isBinaryFile_counts_nonText[OF h, of 65]
  show ?thesis by (simp add: maxBytes_def)
qed

text \<open>
  C4. For the empty file no byte is examined: the quotient \<open>0 / 0\<close> is \<open>NaN\<close>, not
  an error, the comparison with \<open>0.3\<close> is false, and \<open>isBinaryFile\<close> returns
  \<open>false\<close>.
\<close>

theorem isBinaryFile_empty:
  "isBinaryFile (File st (Inr [])) = Inr False \<and> js_div 0 0 = NaN
   \<and> isBinaryFile_loop [] (min (length ([] :: byte list)) maxBytes) 0 0 = Completed 0"
  by (simp add: isBinaryFile_def js_div_def isBinaryFile_loop.simps)

text \<open>
  C5. A readable file with no null byte among its examined bytes is classified binary
  exactly when the number of counted bytes exceeds three tenths of the number of bytes
  examined, strictly: with exactly 31 in 100 counted it is binary, with exactly 3 in 10
  it is text. (For the empty file the fraction below is \<open>0 / 0\<close>, which is 0 in HOL
  and \<open>NaN\<close> in the program; neither exceeds three tenths.)
\<close>

theorem isBinaryFile_threshold:
  assumes "0 \<notin> set (take maxBytes buffer)"
  defines "n \<equiv> min (length buffer) maxBytes"
  defines "k \<equiv> length (filter nonText (take maxBytes buffer))"
  shows "isBinaryFile (File st (Inr buffer)) = Inr ((3/10 :: rat) < of_nat k / of_nat n)
    \<and> (0 < n \<and> 100 * k = 31 * n \<longrightarrow> isBinaryFile (File st (Inr buffer)) = Inr True)
    \<and> (10 * k = 3 * n \<longrightarrow> isBinaryFile (File st (Inr buffer)) = Inr False)"
proof -
  have eq: "isBinaryFile (File st (Inr buffer)) = Inr (3 * n < 10 * k)"
    unfolding n_def k_def using assms(1) by (rule isBinaryFile_no_null)
  have "((3/10 :: rat) < of_nat k / of_nat n) = (3 * n < 10 * k)"
  proof (cases "n = 0")
    case True
    have "k \<le> n" unfolding k_def n_def by (rule count_le)
    with True show ?thesis by simp
  next
    case False
    then have "((3/10 :: rat) < of_nat k / of_nat n) = (3 * of_nat n < 10 * (of_nat k :: rat))"
      by (simp add: field_simps)
    also have "\<dots> = (of_nat (3 * n) < (of_nat (10 * k) :: rat))" by simp
    also have "\<dots> = (3 * n < 10 * k)" by (simp only: of_nat_less_iff)
    finally show ?thesis .
  qed
  with eq show ?thesis by auto
qed

theorem isBinaryFile_threshold_witness:
  "isBinaryFile (File \<lparr>st_size = 100, st_mtime = []\<rparr> (Inr (replicate 31 1 @ replicate 69 97))) = Inr True
   \<and> isBinaryFile (File \<lparr>st_size = 10, st_mtime = []\<rparr> (Inr (replicate 3 1 @ replicate 7 97))) = Inr False"
proof -
  have h1: "0 \<notin> set (take maxBytes (replicate 31 1 @ replicate 69 (97 :: byte)))"
    by (simp add: maxBytes_def)
  have h2: "0 \<notin> set (take maxBytes (replicate 3 1 @ replicate 7 (97 :: byte)))"
    by (simp add: maxBytes_def)
  have n1: "nonText 1" "\<not> nonText 97" by (simp_all add: nonText_def)
  from isBinaryFile_threshold[OF h1, of "\<lparr>st_size = 100, st_mtime = []\<rparr>"]
    isBinaryFile_threshold[OF h2, of "\<lparr>st_size = 10, st_mtime = []\<rparr>"] n1
  show ?thesis by (simp add: maxBytes_def)
qed

section \<open>Properties of the text normalisation\<close>

subsection \<open>removeWhitespace\<close>

lemma collapse_Nil [simp]: "collapse [] = []" by (simp add: collapse_def replaceAll.simps)

lemma collapse_Cons:
  "collapse (c # cs) = (if isSpace c then 0x20 # collapse (dropWhile isSpace cs) else c # collapse cs)"
  by (simp add: collapse_def replaceAll.simps whitespaceRun_def dropWhile_eq_drop split: prod.splits)

lemma collapse_hd: "\<not> isSpace c \<Longrightarrow> \<exists>r. collapse (c # cs) = c # r"
  by (simp add: collapse_Cons)

lemma wsNormal_collapse: "wsNormal (collapse s)"
proof (induction s rule: length_induct)
  case (1 s)
  show ?case
  proof (cases s)
    case Nil then show ?thesis by simp
  next
    case (Cons c cs)
    show ?thesis
    proof (cases "isSpace c")
      case False
      have "wsNormal (collapse cs)" using 1 Cons by simp
      with False show ?thesis unfolding Cons collapse_Cons by (cases "collapse cs") auto
    next
      case True
      let ?u = "dropWhile isSpace cs"
      have n: "wsNormal (collapse ?u)" using 1 Cons by (simp add: length_dropWhile_le le_imp_less_Suc)
      have "collapse ?u = [] \<or> \<not> isSpace (hd (collapse ?u))"
      proof (cases ?u)
        case Nil
        have "collapse ?u = []" by (simp only: Nil collapse_Nil)
        then show ?thesis by (rule disjI1)
      next
        case (Cons d ds)
        then have "\<not> isSpace d" by (metis hd_dropWhile list.sel(1) list.distinct(1))
        then show ?thesis unfolding Cons by (simp add: collapse_Cons)
      qed
      with n True show ?thesis unfolding Cons collapse_Cons by (cases "collapse ?u") auto
    qed
  qed
qed

lemma collapse_wsNormal: "wsNormal t \<Longrightarrow> collapse t = t"
proof (induction t rule: wsNormal.induct)
  case (1 a b cs)
  then show ?case by (auto simp: collapse_Cons[of a])
next
  case (2 a)
  then show ?case by (auto simp: collapse_Cons)
next
  case 3
  then show ?case by simp
qed

lemma wsNormal_append: "wsNormal (xs @ ys) \<Longrightarrow> wsNormal xs \<and> wsNormal ys"
proof (induction xs rule: wsNormal.induct)
  case (1 a b cs)
  then show ?case by auto
next
  case (2 a)
  then show ?case by (cases ys) auto
next
  case 3
  then show ?case by simp
qed

lemma trim_infix: "\<exists>a b. t = a @ trim t @ b"
proof -
  let ?u = "dropWhile isSpace t"
  have "t = takeWhile isSpace t @ ?u" by simp
  moreover have "?u = trim t @ rev (takeWhile isSpace (rev ?u))"
  proof -
    have "rev ?u = takeWhile isSpace (rev ?u) @ dropWhile isSpace (rev ?u)" by simp
    then have "rev (rev ?u) = rev (takeWhile isSpace (rev ?u) @ dropWhile isSpace (rev ?u))" by simp
    then show ?thesis unfolding trim_def by (simp only: rev_rev_ident rev_append)
  qed
  ultimately show ?thesis by metis
qed

lemma wsNormal_trim: "wsNormal t \<Longrightarrow> wsNormal (trim t)"
  using trim_infix[of t] wsNormal_append by metis

lemma trim_last: "trim t \<noteq> [] \<Longrightarrow> \<not> isSpace (last (trim t))"
  unfolding trim_def by (metis hd_dropWhile last_rev rev_is_Nil_conv)

lemma trim_hd: "trim t \<noteq> [] \<Longrightarrow> \<not> isSpace (hd (trim t))"
proof -
  assume ne: "trim t \<noteq> []"
  let ?u = "dropWhile isSpace t"
  have u: "?u = trim t @ rev (takeWhile isSpace (rev ?u))"
  proof -
    have "rev ?u = takeWhile isSpace (rev ?u) @ dropWhile isSpace (rev ?u)" by simp
    then have "rev (rev ?u) = rev (takeWhile isSpace (rev ?u) @ dropWhile isSpace (rev ?u))" by simp
    then show ?thesis unfolding trim_def by (simp only: rev_rev_ident rev_append)
  qed
  with ne have "?u \<noteq> []" by (metis append_is_Nil_conv)
  then have "\<not> isSpace (hd ?u)" by (rule hd_dropWhile)
  moreover have "hd ?u = hd (trim t)" using u ne by (metis hd_append2)
  ultimately show ?thesis by simp
qed

lemma trim_fixed: "s = [] \<or> (\<not> isSpace (hd s) \<and> \<not> isSpace (last s)) \<Longrightarrow> trim s = s"
proof (cases s)
  case Nil then show ?thesis by (simp add: trim_def)
next
  case (Cons c cs)
  assume "s = [] \<or> (\<not> isSpace (hd s) \<and> \<not> isSpace (last s))"
  with Cons have h: "\<not> isSpace (hd s)" and l: "\<not> isSpace (last s)" by auto
  from h Cons have "dropWhile isSpace s = s" by simp
  moreover from l Cons have "dropWhile isSpace (rev s) = rev s"
    by (metis dropWhile.simps(2) hd_rev list.collapse list.distinct(1) rev_is_Nil_conv)
  ultimately show ?thesis by (simp add: trim_def)
qed

lemma trim_trim: "trim (trim t) = trim t"
  by (rule trim_fixed) (use trim_hd trim_last in blast)

lemma wsNormal_adjacent:
  "wsNormal t \<Longrightarrow> \<not> (\<exists>i. Suc i < length t \<and> isSpace (t ! i) \<and> isSpace (t ! Suc i))"
proof (induction t rule: wsNormal.induct)
  case (1 a b cs)
  show ?case
  proof
    assume "\<exists>i. Suc i < length (a # b # cs) \<and> isSpace ((a # b # cs) ! i) \<and> isSpace ((a # b # cs) ! Suc i)"
    then obtain i where i: "Suc i < length (a # b # cs)" "isSpace ((a # b # cs) ! i)" "isSpace ((a # b # cs) ! Suc i)"
      by blast
    show False
    proof (cases i)
      case 0
      with i 1 show ?thesis by auto
    next
      case (Suc j)
      with i have "Suc j < length (b # cs) \<and> isSpace ((b # cs) ! j) \<and> isSpace ((b # cs) ! Suc j)" by simp
      with 1 show ?thesis by auto
    qed
  qed
qed simp_all

text \<open>
  C9. \<open>removeWhitespace\<close> is idempotent, and its result has no two white-space
  characters in a row, no white space at its start and none at its end.
\<close>

theorem removeWhitespace_idempotent:
  "removeWhitespace (removeWhitespace s) = removeWhitespace s
   \<and> \<not> (\<exists>i. Suc i < length (removeWhitespace s)
            \<and> isSpace (removeWhitespace s ! i) \<and> isSpace (removeWhitespace s ! Suc i))
   \<and> \<not> (removeWhitespace s \<noteq> [] \<and> isSpace (hd (removeWhitespace s)))
   \<and> \<not> (removeWhitespace s \<noteq> [] \<and> isSpace (last (removeWhitespace s)))"
proof -
  have n: "wsNormal (removeWhitespace s)"
    unfolding removeWhitespace_def collapse_def[symmetric] by (rule wsNormal_trim[OF wsNormal_collapse])
  have rw: "removeWhitespace t = trim (collapse t)" for t
    by (simp add: removeWhitespace_def collapse_def)
  have "removeWhitespace (removeWhitespace s) = trim (collapse (removeWhitespace s))"
    by (rule rw)
  also have "\<dots> = trim (removeWhitespace s)" by (simp only: collapse_wsNormal[OF n])
  also have "\<dots> = removeWhitespace s" unfolding removeWhitespace_def by (rule trim_trim)
  finally have "removeWhitespace (removeWhitespace s) = removeWhitespace s" .
  moreover note wsNormal_adjacent[OF n]
  moreover have "\<not> (removeWhitespace s \<noteq> [] \<and> isSpace (hd (removeWhitespace s)))"
    unfolding removeWhitespace_def using trim_hd by blast
  moreover have "\<not> (removeWhitespace s \<noteq> [] \<and> isSpace (last (removeWhitespace s)))"
    unfolding removeWhitespace_def using trim_last by blast
  ultimately show ?thesis by blast
qed

subsection \<open>removeComments after removeWhitespace\<close>

lemma wsNormal_space: "wsNormal t \<Longrightarrow> c \<in> set t \<Longrightarrow> isSpace c \<Longrightarrow> c = 0x20"
  by (induction t rule: wsNormal.induct) auto

lemma lineTerminator_isSpace: "isLineTerminator c \<Longrightarrow> isSpace c \<and> c \<noteq> 0x20"
  by (auto simp: isLineTerminator_def isSpace_def)

lemma removeWhitespace_one_line: "c \<in> set (removeWhitespace s) \<Longrightarrow> \<not> isLineTerminator c"
proof -
  have n: "wsNormal (removeWhitespace s)"
    unfolding removeWhitespace_def collapse_def[symmetric] by (rule wsNormal_trim[OF wsNormal_collapse])
  assume "c \<in> set (removeWhitespace s)"
  from wsNormal_space[OF n this] lineTerminator_isSpace[of c] show ?thesis by blast
qed

lemma replaceAll_None:
  "m (c # cs) = None \<Longrightarrow> fst (replaceAll m f (c # cs) st) = c # fst (replaceAll m f cs st)"
  by (simp add: replaceAll.simps split: prod.splits)

lemma replaceAll_Some:
  "m (c # cs) = Some n \<Longrightarrow> fst (replaceAll m f (c # cs) st) =
     fst (f (take n (c # cs)) st) @ fst (replaceAll m f (drop (n - 1) cs) (snd (f (take n (c # cs)) st)))"
  by (simp add: replaceAll.simps split: prod.splits)

lemma replaceAll_chars:
  assumes "\<And>x st. set (fst (f x st)) \<subseteq> R"
  shows "set (fst (replaceAll m f s st)) \<subseteq> set s \<union> R"
  using assms
proof (induction m f s st rule: replaceAll.induct)
  case (1 m f st)
  then show ?case by (simp add: replaceAll.simps)
next
  case (2 m f c cs st)
  show ?case
  proof (cases "m (c # cs)")
    case None
    from 2(1)[OF None 2(3)] show ?thesis
      by (auto simp: replaceAll_None None)
  next
    case (Some n)
    obtain r st1 where f: "f (take n (c # cs)) st = (r, st1)" by (cases "f (take n (c # cs)) st")
    have r: "set r \<subseteq> R" using 2(3)[of "take n (c # cs)" st] unfolding f by simp
    have "set (fst (replaceAll m f (drop (n - 1) cs) st1)) \<subseteq> set (drop (n - 1) cs) \<union> R"
      using 2(2)[OF Some f[symmetric] 2(3)] .
    moreover have "set (drop (n - 1) cs) \<subseteq> set cs" by (rule set_drop_subset)
    ultimately show ?thesis using r
      by (auto simp: replaceAll_Some Some f)
  qed
qed

lemma toDecimal_digits: "set (toDecimal n) \<subseteq> set (js ''0123456789'')"
proof (induction n rule: toDecimal.induct)
  case (1 n)
  have d: "k < 10 \<Longrightarrow> js ''0123456789'' ! k \<in> set (js ''0123456789'')" for k
    by (rule nth_mem) simp
  show ?case
  proof (cases "n < 10")
    case True
    with d[of n] show ?thesis by (subst toDecimal.simps) simp
  next
    case False
    have "n mod 10 < 10" by simp
    from d[OF this] 1[OF False] False show ?thesis by (subst toDecimal.simps) simp
  qed
qed

lemma preserve_chars: "set (fst (preserve x st)) \<subseteq> set (js ''__PRESERVED__0123456789'')"
  using toDecimal_digits[of "length (st @ [x]) - 1"] by (auto simp: preserve_def)

lemma preserveLiterals_one_line:
  assumes "\<And>c. c \<in> set s \<Longrightarrow> \<not> isLineTerminator c" "c \<in> set (fst (preserveLiterals s))"
  shows "\<not> isLineTerminator c"
proof -
  let ?R = "set (js ''__PRESERVED__0123456789'')"
  obtain t1 items1 where t1: "replaceAll stringPattern preserve s [] = (t1, items1)"
    by (cases "replaceAll stringPattern preserve s []")
  have "set t1 \<subseteq> set s \<union> ?R"
    using replaceAll_chars[of preserve ?R stringPattern s "[]", OF preserve_chars] t1 by simp
  moreover have "set (fst (replaceAll regexPattern preserve t1 items1)) \<subseteq> set t1 \<union> ?R"
    by (rule replaceAll_chars[OF preserve_chars])
  ultimately have "set (fst (preserveLiterals s)) \<subseteq> set s \<union> ?R"
    by (auto simp: preserveLiterals_def t1)
  with assms(2) have "c \<in> set s \<or> c \<in> ?R" by auto
  moreover have "c \<in> ?R \<Longrightarrow> \<not> isLineTerminator c" by (auto simp: isLineTerminator_def)
  ultimately show ?thesis using assms(1) by blast
qed

lemma singleLine_one_line:
  assumes "\<And>c. c \<in> set t \<Longrightarrow> \<not> isLineTerminator c" "indexOfSlashes t = Some p"
  shows "fst (replaceAll singleLineCommentPattern (\<lambda>m u. ([], u)) t ()) = take p t"
  using assms
proof (induction t arbitrary: p rule: indexOfSlashes.induct)
  case (1 a b cs)
  show ?case
  proof (cases "a = 0x2F \<and> b = 0x2F")
    case True
    have tw: "takeWhile (\<lambda>x. \<not> isLineTerminator x) cs = cs" using 1(2) by (simp add: takeWhile_eq_all_conv)
    have dw: "dropWhile (\<lambda>x. \<not> isLineTerminator x) cs = []" using 1(2) by simp
    have "singleLineCommentPattern (a # b # cs) = Some (2 + length cs)"
      using True by (simp add: singleLineCommentPattern_def tw dw)
    moreover from True 1(3) have "p = 0" by simp
    ultimately show ?thesis by (simp add: replaceAll_Some replaceAll.simps(1))
  next
    case False
    then have none: "singleLineCommentPattern (a # b # cs) = None"
      by (auto simp: singleLineCommentPattern_def)
    from False 1(3) obtain p' where p': "indexOfSlashes (b # cs) = Some p'" "p = Suc p'" by auto
    have "fst (replaceAll singleLineCommentPattern (\<lambda>m u. ([], u)) (b # cs) ()) = take p' (b # cs)"
      using 1(1)[OF False _ p'(1)] 1(2) by simp
    with p'(2) show ?thesis by (simp add: replaceAll_None none)
  qed
qed simp_all

lemmas eval_removeComments = removeComments_def preserveLiterals_def replaceAll.simps
  stringPattern_def regexPattern_def singleLineCommentPattern_def multiLineCommentPattern_def
  placeholderPattern_def preserve_def restore_def parseDecimal_def isLineTerminator_def
  isDigit_def regexBodyChar_def regexFlag_def toDecimal.simps

lemmas eval_removeWhitespace = removeWhitespace_def trim_def whitespaceRun_def isSpace_def
  replaceAll.simps

text \<open>
  A scan copies a stretch of text in which the pattern cannot start, and replaces a
  match by what the callback returns.
\<close>

lemma replaceAll_skip:
  assumes "\<And>c cs. c \<in> set s \<Longrightarrow> m (c # cs) = None"
  shows "replaceAll m f (s @ t) st = (s @ fst (replaceAll m f t st), snd (replaceAll m f t st))"
  using assms
proof (induction s)
  case Nil
  then show ?case by simp
next
  case (Cons a s)
  have "m (a # s @ t) = None" using Cons.prems by simp
  moreover have "replaceAll m f (s @ t) st = (s @ fst (replaceAll m f t st), snd (replaceAll m f t st))"
    using Cons.IH Cons.prems by simp
  ultimately show ?case by (simp add: replaceAll.simps)
qed

lemma replaceAll_skip_all:
  "(\<And>c cs. c \<in> set s \<Longrightarrow> m (c # cs) = None) \<Longrightarrow> replaceAll m f s st = (s, st)"
  using replaceAll_skip[of s m f "[]" st] by (simp add: replaceAll.simps)

lemma stringPattern_None: "c \<noteq> 0x27 \<Longrightarrow> c \<noteq> 0x22 \<Longrightarrow> c \<noteq> 0x60 \<Longrightarrow> stringPattern (c # cs) = None"
  by (simp add: stringPattern_def)

lemma regexPattern_None: "c \<noteq> 0x2F \<Longrightarrow> regexPattern (c # cs) = None"
  by (simp add: regexPattern_def)

lemma regexPattern_slash_slash: "regexPattern (0x2F # 0x2F # r) = None"
  by (simp add: regexPattern_def regexBodyChar_def)

lemma regexPattern_no_close: "0x2F \<notin> set r \<Longrightarrow> regexPattern (0x2F # r) = None"
proof -
  assume a: "0x2F \<notin> set r"
  have "dropWhile regexBodyChar r = x # xs \<Longrightarrow> x \<noteq> 0x2F" for x xs
  proof
    assume d: "dropWhile regexBodyChar r = x # xs" and "x = 0x2F"
    have "x \<in> set (dropWhile regexBodyChar r)" using d by simp
    then have "x \<in> set r" by (rule set_mp[OF set_dropWhileD[THEN subsetI], rotated])
    with a \<open>x = 0x2F\<close> show False by simp
  qed
  then show ?thesis
    by (auto simp: regexPattern_def Let_def split: list.splits)
qed

lemma singleLine_None: "c \<noteq> 0x2F \<Longrightarrow> singleLineCommentPattern (c # cs) = None"
  by (simp add: singleLineCommentPattern_def split: list.splits)

lemma multiLine_None: "c \<noteq> 0x2F \<Longrightarrow> multiLineCommentPattern (c # cs) = None"
  by (simp add: multiLineCommentPattern_def split: list.splits)

lemma placeholder_absent:
  "\<not> containsText s (js ''__PRESERVED__'') \<Longrightarrow> replaceAll placeholderPattern f s u = (s, u)"
proof (induction s)
  case Nil
  then show ?case by (simp add: replaceAll.simps)
next
  case (Cons a s)
  define P :: jsstring where "P = js ''__PRESERVED__''"
  have l: "length P = 13" by (simp add: P_def)
  have "\<not> containsText (a # s) P" unfolding P_def by (rule Cons.prems)
  then have "\<not> (take (length P) (a # s) = P \<or> containsText s P)"
    unfolding containsText.simps .
  then have n: "take 13 (a # s) \<noteq> P" and r: "\<not> containsText s P"
    unfolding l by blast+
  from n have "placeholderPattern (a # s) = None"
    unfolding P_def placeholderPattern_def by (simp only: if_False)
  with Cons.IH r show ?case by (simp add: replaceAll.simps P_def)
qed

lemma indexOfSlashes_prefix:
  "0x2F \<notin> set pre \<Longrightarrow> indexOfSlashes (pre @ 0x2F # 0x2F # r) = Some (length pre)"
proof (induction pre)
  case Nil
  then show ?case by simp
next
  case (Cons a pre)
  then show ?case by (cases pre) auto
qed

lemma removeComments_cuts:
  assumes one_line: "\<And>c. c \<in> set (pre @ 0x2F # 0x2F # rest) \<Longrightarrow> \<not> isLineTerminator c"
    and pre: "\<And>c. c \<in> set pre \<Longrightarrow> c \<noteq> 0x27 \<and> c \<noteq> 0x22 \<and> c \<noteq> 0x60 \<and> c \<noteq> 0x2F"
    and ph: "\<not> containsText pre (js ''__PRESERVED__'')"
    and rest: "0x2F \<notin> set rest"
  shows "removeComments (pre @ 0x2F # 0x2F # rest) = pre"
proof -
  let ?R = "set (js ''__PRESERVED__0123456789'')"
  obtain r1 items1 where s: "replaceAll stringPattern preserve rest [] = (r1, items1)"
    by (cases "replaceAll stringPattern preserve rest []")
  have r1: "set r1 \<subseteq> set rest \<union> ?R"
    using replaceAll_chars[of preserve ?R stringPattern rest "[]", OF preserve_chars] s by simp
  have slash: "0x2F \<notin> set r1"
  proof
    assume "0x2F \<in> set r1"
    with r1 rest have "(0x2F :: jschar) \<in> ?R" by blast
    then show False by simp
  qed
  have line: "c \<in> set r1 \<Longrightarrow> \<not> isLineTerminator c" for c
  proof -
    assume "c \<in> set r1"
    with r1 have "c \<in> set rest \<or> c \<in> ?R" by blast
    moreover have "c \<in> ?R \<Longrightarrow> \<not> isLineTerminator c" by (auto simp: isLineTerminator_def)
    ultimately show ?thesis using one_line[of c] by auto
  qed
  have "replaceAll stringPattern preserve ((pre @ [0x2F, 0x2F]) @ rest) []
          = ((pre @ [0x2F, 0x2F]) @ fst (replaceAll stringPattern preserve rest []),
             snd (replaceAll stringPattern preserve rest []))"
    by (rule replaceAll_skip) (use pre in \<open>auto simp: stringPattern_None\<close>)
  then have sp: "replaceAll stringPattern preserve (pre @ 0x2F # 0x2F # rest) []
          = (pre @ 0x2F # 0x2F # r1, items1)"
    by (simp add: s)
  have ns: "c \<in> set r1 \<Longrightarrow> c \<noteq> 0x2F" for c using slash by auto
  have tail: "replaceAll regexPattern preserve r1 items1 = (r1, items1)"
    by (rule replaceAll_skip_all) (simp add: regexPattern_None ns)
  have "replaceAll regexPattern preserve (0x2F # r1) items1 = (0x2F # r1, items1)"
    using tail by (simp add: replaceAll.simps regexPattern_no_close[OF slash])
  then have "replaceAll regexPattern preserve (0x2F # 0x2F # r1) items1 = (0x2F # 0x2F # r1, items1)"
    by (simp add: replaceAll.simps regexPattern_slash_slash)
  moreover have "replaceAll regexPattern preserve (pre @ 0x2F # 0x2F # r1) items1
          = (pre @ fst (replaceAll regexPattern preserve (0x2F # 0x2F # r1) items1),
             snd (replaceAll regexPattern preserve (0x2F # 0x2F # r1) items1))"
    by (rule replaceAll_skip) (use pre in \<open>auto simp: regexPattern_None\<close>)
  ultimately have rp: "replaceAll regexPattern preserve (pre @ 0x2F # 0x2F # r1) items1
          = (pre @ 0x2F # 0x2F # r1, items1)"
    by simp
  have pl: "preserveLiterals (pre @ 0x2F # 0x2F # rest) = (pre @ 0x2F # 0x2F # r1, items1)"
    by (simp add: preserveLiterals_def sp rp)
  have "c \<in> set (pre @ 0x2F # 0x2F # r1) \<Longrightarrow> \<not> isLineTerminator c" for c
    using line[of c] one_line[of c] by auto
  from singleLine_one_line[OF this indexOfSlashes_prefix]
  have sl: "fst (replaceAll singleLineCommentPattern (\<lambda>m u. ([], u)) (pre @ 0x2F # 0x2F # r1) ()) = pre"
    using pre by auto
  have ml: "replaceAll multiLineCommentPattern (\<lambda>m u. ([], u)) pre () = (pre, ())"
    by (rule replaceAll_skip_all) (use pre in \<open>auto simp: multiLine_None\<close>)
  show ?thesis
    by (simp add: removeComments_def pl sl ml placeholder_absent[OF ph])
qed

lemma replaceAll_match:
  "m (c # cs) = Some n \<Longrightarrow> f (take n (c # cs)) st = (r, st1)
   \<Longrightarrow> replaceAll m f (drop (n - 1) cs) st1 = (out, st2)
   \<Longrightarrow> replaceAll m f (c # cs) st = (r @ out, st2)"
  by (simp add: replaceAll.simps)

lemma replaceAll_no_match:
  "m (c # cs) = None \<Longrightarrow> replaceAll m f cs st = (out, st')
   \<Longrightarrow> replaceAll m f (c # cs) st = (c # out, st')"
  by (simp add: replaceAll.simps)

lemma containsText_suffix:
  "\<not> containsText (xs @ ys) pat \<Longrightarrow> pat \<noteq> [] \<Longrightarrow> \<not> containsText ys pat"
  by (induction xs) auto

lemma placeholder_absent_prefix:
  assumes "\<not> containsText pre (js ''__PRESERVED__'')"
  shows "replaceAll placeholderPattern f (pre @ 0x2F # t) u
    = (pre @ fst (replaceAll placeholderPattern f (0x2F # t) u),
       snd (replaceAll placeholderPattern f (0x2F # t) u))"
  using assms
proof (induction pre)
  case Nil
  then show ?case by simp
next
  case (Cons a pre)
  define P :: jsstring where "P = js ''__PRESERVED__''"
  have l: "length P = 13" by (simp add: P_def)
  have "\<not> containsText (a # pre) P" unfolding P_def by (rule Cons.prems)
  then have "\<not> (take (length P) (a # pre) = P \<or> containsText pre P)"
    unfolding containsText.simps .
  then have n: "take 13 (a # pre) \<noteq> P" and r: "\<not> containsText pre P"
    unfolding l by blast+
  have "take 13 ((a # pre) @ 0x2F # t) \<noteq> P"
  proof (cases "13 \<le> length (a # pre)")
    case True
    then have "take 13 ((a # pre) @ 0x2F # t) = take 13 (a # pre)" by simp
    with n show ?thesis by simp
  next
    case False
    then obtain k where k: "13 - length (a # pre) = Suc k" by (cases "13 - length (a # pre)") auto
    have "take 13 ((a # pre) @ 0x2F # t) = take 13 (a # pre) @ 0x2F # take k t"
      unfolding take_append k by simp
    then have "0x2F \<in> set (take 13 ((a # pre) @ 0x2F # t))" by simp
    moreover have "0x2F \<notin> set P" by (simp add: P_def)
    ultimately show ?thesis by metis
  qed
  then have "take 13 (a # pre @ 0x2F # t) \<noteq> P" by simp
  then have none: "placeholderPattern (a # pre @ 0x2F # t) = None"
    unfolding P_def placeholderPattern_def by (simp only: if_False)
  have "replaceAll placeholderPattern f (pre @ 0x2F # t) u
    = (pre @ fst (replaceAll placeholderPattern f (0x2F # t) u),
       snd (replaceAll placeholderPattern f (0x2F # t) u))"
    using Cons.IH r unfolding P_def by blast
  from replaceAll_no_match[OF none this] show ?case by simp
qed

lemma regexPattern_match:
  assumes "body \<noteq> []" "hd body \<noteq> 0x2A"
    and "\<And>c. c \<in> set body \<Longrightarrow> c \<noteq> 0x2F \<and> c \<noteq> 0x5C \<and> c \<noteq> 0x0A"
  shows "regexPattern (0x2F # body @ 0x2F # rest)
    = Some (Suc (length body + Suc (length (takeWhile regexFlag rest))))"
proof -
  have b: "\<And>c. c \<in> set body \<Longrightarrow> regexBodyChar c" using assms(3) by (simp add: regexBodyChar_def)
  have tw: "takeWhile regexBodyChar (body @ 0x2F # rest) = body"
    using b by (simp add: takeWhile_append2 regexBodyChar_def)
  have dw: "dropWhile regexBodyChar (body @ 0x2F # rest) = 0x2F # rest"
    using b by (simp add: dropWhile_append2 regexBodyChar_def)
  obtain x xs where body: "body = x # xs" using assms(1) by (cases body) auto
  with assms(2) have "x \<noteq> 0x2A" by simp
  then show ?thesis
    using tw dw assms(1) unfolding regexPattern_def by (simp add: body Let_def)
qed

lemma removeComments_keeps:
  assumes quotes: "\<And>c. c \<in> set (pre @ body @ rest) \<Longrightarrow> c \<noteq> 0x27 \<and> c \<noteq> 0x22 \<and> c \<noteq> 0x60"
    and pre: "0x2F \<notin> set pre" "\<not> containsText pre (js ''__PRESERVED__'')"
    and body: "body \<noteq> []" "hd body \<noteq> 0x2A"
       "\<And>c. c \<in> set body \<Longrightarrow> c \<noteq> 0x2F \<and> c \<noteq> 0x5C \<and> c \<noteq> 0x0A"
    and rest: "0x2F \<notin> set rest" "\<not> containsText rest (js ''__PRESERVED__'')"
  shows "removeComments (pre @ 0x2F # 0x2F # body @ 0x2F # rest)
    = pre @ 0x2F # 0x2F # body @ 0x2F # rest"
proof -
  let ?text = "pre @ 0x2F # 0x2F # body @ 0x2F # rest"
  let ?flags = "takeWhile regexFlag rest"
  let ?rest' = "dropWhile regexFlag rest"
  let ?item = "0x2F # body @ 0x2F # ?flags"
  let ?ph = "js ''__PRESERVED__0__''"
  have np: "c \<in> set pre \<Longrightarrow> c \<noteq> 0x2F" for c using pre(1) by auto
  have nr: "c \<in> set ?rest' \<Longrightarrow> c \<noteq> 0x2F" for c using rest(1) set_dropWhileD[of c regexFlag rest] by auto
  have sp: "replaceAll stringPattern preserve ?text [] = (?text, [])"
    by (rule replaceAll_skip_all) (use quotes in \<open>auto simp: stringPattern_None\<close>)
  have m: "regexPattern (0x2F # body @ 0x2F # rest) = Some (Suc (length body + Suc (length ?flags)))"
    by (rule regexPattern_match[OF body])
  have tail: "replaceAll regexPattern preserve ?rest' [?item] = (?rest', [?item])"
    by (rule replaceAll_skip_all) (simp add: regexPattern_None nr)
  have tk: "take (Suc (length body + Suc (length ?flags))) (0x2F # body @ 0x2F # rest) = ?item"
    by (simp add: take_Suc_Cons) (metis append_take_drop_id takeWhile_dropWhile_id takeWhile_eq_take)
  have dr: "drop (length body + Suc (length ?flags)) (body @ 0x2F # rest) = ?rest'"
    by (simp add: dropWhile_eq_drop)
  have "replaceAll regexPattern preserve (0x2F # body @ 0x2F # rest) [] = (?ph @ ?rest', [?item])"
  proof (rule replaceAll_match)
    show "regexPattern (0x2F # body @ 0x2F # rest) = Some (Suc (length body + Suc (length ?flags)))"
      by (rule m)
    show "preserve (take (Suc (length body + Suc (length ?flags))) (0x2F # body @ 0x2F # rest)) []
        = (?ph, [?item])"
      unfolding tk by (simp add: preserve_def toDecimal.simps)
    have "Suc (length body + Suc (length ?flags)) - 1 = length body + Suc (length ?flags)" by simp
    then show "replaceAll regexPattern preserve
        (drop (Suc (length body + Suc (length ?flags)) - 1) (body @ 0x2F # rest)) [?item] = (?rest', [?item])"
      using tail dr by (simp only:)
  qed
  then have "replaceAll regexPattern preserve (0x2F # 0x2F # body @ 0x2F # rest) []
      = (0x2F # ?ph @ ?rest', [?item])"
    by (simp add: replaceAll.simps(2) regexPattern_slash_slash)
  moreover have "replaceAll regexPattern preserve ?text []
      = (pre @ fst (replaceAll regexPattern preserve (0x2F # 0x2F # body @ 0x2F # rest) []),
         snd (replaceAll regexPattern preserve (0x2F # 0x2F # body @ 0x2F # rest) []))"
    by (rule replaceAll_skip) (simp add: regexPattern_None np)
  ultimately have rp: "replaceAll regexPattern preserve ?text [] = (pre @ 0x2F # ?ph @ ?rest', [?item])"
    by simp
  have pl: "preserveLiterals ?text = (pre @ 0x2F # ?ph @ ?rest', [?item])"
    by (simp add: preserveLiterals_def sp rp)
  have nt: "c \<in> set (?ph @ ?rest') \<Longrightarrow> c \<noteq> 0x2F" for c using nr[of c] by auto
  have "replaceAll singleLineCommentPattern (\<lambda>m u. ([], u)) (?ph @ ?rest') () = (?ph @ ?rest', ())"
    by (rule replaceAll_skip_all) (simp add: singleLine_None nt)
  then have "replaceAll singleLineCommentPattern (\<lambda>m u. ([], u)) (0x2F # ?ph @ ?rest') ()
      = (0x2F # ?ph @ ?rest', ())"
    by (simp add: replaceAll.simps(2) singleLineCommentPattern_def)
  moreover have "replaceAll singleLineCommentPattern (\<lambda>m u. ([], u)) (pre @ 0x2F # ?ph @ ?rest') ()
      = (pre @ fst (replaceAll singleLineCommentPattern (\<lambda>m u. ([], u)) (0x2F # ?ph @ ?rest') ()),
         snd (replaceAll singleLineCommentPattern (\<lambda>m u. ([], u)) (0x2F # ?ph @ ?rest') ()))"
    by (rule replaceAll_skip) (simp add: singleLine_None np)
  ultimately have sl: "replaceAll singleLineCommentPattern (\<lambda>m u. ([], u)) (pre @ 0x2F # ?ph @ ?rest') ()
      = (pre @ 0x2F # ?ph @ ?rest', ())"
    by simp
  have "replaceAll multiLineCommentPattern (\<lambda>m u. ([], u)) (?ph @ ?rest') () = (?ph @ ?rest', ())"
    by (rule replaceAll_skip_all) (simp add: multiLine_None nt)
  then have "replaceAll multiLineCommentPattern (\<lambda>m u. ([], u)) (0x2F # ?ph @ ?rest') ()
      = (0x2F # ?ph @ ?rest', ())"
    by (simp add: replaceAll.simps(2) multiLineCommentPattern_def)
  moreover have "replaceAll multiLineCommentPattern (\<lambda>m u. ([], u)) (pre @ 0x2F # ?ph @ ?rest') ()
      = (pre @ fst (replaceAll multiLineCommentPattern (\<lambda>m u. ([], u)) (0x2F # ?ph @ ?rest') ()),
         snd (replaceAll multiLineCommentPattern (\<lambda>m u. ([], u)) (0x2F # ?ph @ ?rest') ()))"
    by (rule replaceAll_skip) (simp add: multiLine_None np)
  ultimately have ml: "replaceAll multiLineCommentPattern (\<lambda>m u. ([], u)) (pre @ 0x2F # ?ph @ ?rest') ()
      = (pre @ 0x2F # ?ph @ ?rest', ())"
    by simp
  have "\<not> containsText (?flags @ ?rest') (js ''__PRESERVED__'')" using rest(2) by simp
  then have "\<not> containsText ?rest' (js ''__PRESERVED__'')" by (rule containsText_suffix) simp
  then have r1: "replaceAll placeholderPattern (restore [?item]) ?rest' () = (?rest', ())"
    by (rule placeholder_absent)
  have pp: "placeholderPattern (?ph @ ?rest') = Some 16"
    by (simp add: placeholderPattern_def isDigit_def)
  have "replaceAll placeholderPattern (restore [?item]) (?ph @ ?rest') () = (?item @ ?rest', ())"
  proof -
    have c: "?ph @ ?rest' = 0x5F # js ''_PRESERVED__0__'' @ ?rest'" by simp
    have "replaceAll placeholderPattern (restore [?item]) (0x5F # js ''_PRESERVED__0__'' @ ?rest') ()
        = (?item @ ?rest', ())"
    proof (rule replaceAll_match)
      show "placeholderPattern (0x5F # js ''_PRESERVED__0__'' @ ?rest') = Some 16"
        using pp by simp
      show "restore [?item] (take 16 (0x5F # js ''_PRESERVED__0__'' @ ?rest')) () = (?item, ())"
        by (simp add: restore_def parseDecimal_def)
      show "replaceAll placeholderPattern (restore [?item]) (drop (16 - 1) (js ''_PRESERVED__0__'' @ ?rest')) ()
        = (?rest', ())"
        using r1 by simp
    qed
    with c show ?thesis by simp
  qed
  then have "replaceAll placeholderPattern (restore [?item]) (0x2F # ?ph @ ?rest') ()
      = (0x2F # ?item @ ?rest', ())"
    by (simp add: replaceAll.simps(2) placeholderPattern_def)
  moreover have "replaceAll placeholderPattern (restore [?item]) (pre @ 0x2F # ?ph @ ?rest') ()
      = (pre @ fst (replaceAll placeholderPattern (restore [?item]) (0x2F # ?ph @ ?rest') ()),
         snd (replaceAll placeholderPattern (restore [?item]) (0x2F # ?ph @ ?rest') ()))"
    by (rule placeholder_absent_prefix[OF pre(2)])
  ultimately have rs: "replaceAll placeholderPattern (restore [?item]) (pre @ 0x2F # ?ph @ ?rest') ()
      = (pre @ 0x2F # ?item @ ?rest', ())"
    by simp
  have "removeComments ?text = pre @ 0x2F # ?item @ ?rest'"
    unfolding removeComments_def pl prod.case Let_def sl fst_conv ml rs by (rule refl)
  then show ?thesis by simp
qed

text \<open>
  C10, as stated, fails: the file \<^verbatim>\<open>// a/b\<close>, newline, \<^verbatim>\<open>x\<close> holds a
  single-line comment, yet with both settings on nothing is removed from the collapsed
  content. The second slash of the comment and the slash of \<^verbatim>\<open>a/b\<close> are taken
  for a regex literal, so no two slashes in a row are left when comments are removed.
\<close>

theorem both_settings_comment_kept:
  "removeWhitespace (js ''// a/b'' @ 0x0A # js ''x'') = js ''// a/b x''
   \<and> processContent (js ''f.js'') True True (js ''// a/b'' @ 0x0A # js ''x'') = js ''// a/b x''"
  by (simp add: processContent_def extname_def toLowerCase_def eval_removeWhitespace eval_removeComments)

text \<open>
  C10, amended. With both settings on, the content of a \<open>.js\<close> file is first
  collapsed by \<open>removeWhitespace\<close> and then passed to \<open>removeComments\<close>, and the
  collapsed content has no line terminator. When the collapsed content is some code,
  two slashes and a comment, where the code holds no quote, no slash and no text
  \<^verbatim>\<open>__PRESERVED__\<close> and the comment holds no slash, the result is exactly the
  code: everything from the two slashes to the end of the collapsed content is removed.
  When instead the two slashes are followed by a body and a further slash, where the
  body is not empty, does not start with a star and holds neither slash nor backslash,
  and the content holds no quote, no other slash and no text \<^verbatim>\<open>__PRESERVED__\<close>
  outside the body, the second slash of the comment and the further slash are taken for
  a regex literal and nothing is removed: the result is the collapsed content.
\<close>

theorem both_settings_collapse_first:
  assumes "toLowerCase (extname item) = js ''.js''"
  shows "processContent item True True content = removeComments (removeWhitespace content)
    \<and> \<not> list_ex isLineTerminator (removeWhitespace content)
    \<and> (removeWhitespace content = code @ js ''//'' @ comment
        \<and> (\<forall>c \<in> set code. c \<noteq> 0x27 \<and> c \<noteq> 0x22 \<and> c \<noteq> 0x60 \<and> c \<noteq> 0x2F)
        \<and> \<not> containsText code (js ''__PRESERVED__'')
        \<and> 0x2F \<notin> set comment
      \<longrightarrow> processContent item True True content = code)
    \<and> (removeWhitespace content = before @ js ''//'' @ body @ js ''/'' @ after
        \<and> (\<forall>c \<in> set (before @ body @ after). c \<noteq> 0x27 \<and> c \<noteq> 0x22 \<and> c \<noteq> 0x60)
        \<and> 0x2F \<notin> set before \<and> \<not> containsText before (js ''__PRESERVED__'')
        \<and> body \<noteq> [] \<and> hd body \<noteq> 0x2A \<and> (\<forall>c \<in> set body. c \<noteq> 0x2F \<and> c \<noteq> 0x5C)
        \<and> 0x2F \<notin> set after \<and> \<not> containsText after (js ''__PRESERVED__'')
      \<longrightarrow> processContent item True True content = removeWhitespace content)"
proof -
  have 1: "processContent item True True content = removeComments (removeWhitespace content)"
    using assms by (simp add: processContent_def)
  have line: "c \<in> set (removeWhitespace content) \<Longrightarrow> \<not> isLineTerminator c" for c
    by (rule removeWhitespace_one_line)
  have 2: "\<not> list_ex isLineTerminator (removeWhitespace content)"
    using line by (auto simp: list_ex_iff)
  have 3: "processContent item True True content = code"
    if w: "removeWhitespace content = code @ js ''//'' @ comment"
      and c: "\<forall>c \<in> set code. c \<noteq> 0x27 \<and> c \<noteq> 0x22 \<and> c \<noteq> 0x60 \<and> c \<noteq> 0x2F"
      and p: "\<not> containsText code (js ''__PRESERVED__'')"
      and r: "0x2F \<notin> set comment"
  proof -
    have w': "removeWhitespace content = code @ 0x2F # 0x2F # comment" using w by simp
    have "removeComments (code @ 0x2F # 0x2F # comment) = code"
      by (rule removeComments_cuts) (use line c p r in \<open>auto simp: w'\<close>)
    then show ?thesis by (simp add: 1 w')
  qed
  have 4: "processContent item True True content = removeWhitespace content"
    if w: "removeWhitespace content = before @ js ''//'' @ body @ js ''/'' @ after"
      and q: "\<forall>c \<in> set (before @ body @ after). c \<noteq> 0x27 \<and> c \<noteq> 0x22 \<and> c \<noteq> 0x60"
      and b: "0x2F \<notin> set before" "\<not> containsText before (js ''__PRESERVED__'')"
      and y: "body \<noteq> []" "hd body \<noteq> 0x2A" "\<forall>c \<in> set body. c \<noteq> 0x2F \<and> c \<noteq> 0x5C"
      and a: "0x2F \<notin> set after" "\<not> containsText after (js ''__PRESERVED__'')"
  proof -
    have w': "removeWhitespace content = before @ 0x2F # 0x2F # body @ 0x2F # after" using w by simp
    have nl: "c \<in> set body \<Longrightarrow> c \<noteq> 0x0A" for c
      using line[of c] by (auto simp: w' isLineTerminator_def)
    have "removeComments (before @ 0x2F # 0x2F # body @ 0x2F # after)
        = before @ 0x2F # 0x2F # body @ 0x2F # after"
      by (rule removeComments_keeps) (use q b y a nl in auto)
    then show ?thesis by (simp add: 1 w')
  qed
  from 1 2 3 4 show ?thesis by blast
qed

theorem both_settings_collapse_first_witness:
  "processContent (js ''a.js'') True True (js ''x = 1; // note'' @ 0x0A # js ''y = 2;'') = js ''x = 1; ''
   \<and> removeWhitespace (js ''x = 1; // note'' @ 0x0A # js ''y = 2;'') = js ''x = 1; // note y = 2;''
   \<and> processContent (js ''a.js'') True True (js ''a = 1; // see x/y'' @ 0x0A # js ''b = 2;'')
       = js ''a = 1; // see x/y b = 2;''"
proof -
  let ?c = "js ''x = 1; // note'' @ 0x0A # js ''y = 2;''"
  let ?d = "js ''a = 1; // see x/y'' @ 0x0A # js ''b = 2;''"
  have h: "toLowerCase (extname (js ''a.js'')) = js ''.js''"
    by (simp add: toLowerCase_def extname_def)
  have w: "removeWhitespace ?c = js ''x = 1; // note y = 2;''"
    by (simp add: eval_removeWhitespace)
  have v: "removeWhitespace ?d = js ''a = 1; // see x/y b = 2;''"
    by (simp add: eval_removeWhitespace)
  note r = both_settings_collapse_first[OF h, where content = ?c and code = "js ''x = 1; ''"
        and comment = "js '' note y = 2;''" and before = "[]" and body = "[]" and after = "[]"]
  note k = both_settings_collapse_first[OF h, where content = ?d and before = "js ''a = 1; ''"
        and body = "js '' see x''" and after = "js ''y b = 2;''" and code = "[]" and comment = "[]"]
  have "processContent (js ''a.js'') True True ?c = js ''x = 1; ''"
  proof -
    have "removeWhitespace ?c = js ''x = 1; '' @ js ''//'' @ js '' note y = 2;''"
      using w by simp
    moreover have "\<forall>c \<in> set (js ''x = 1; ''). c \<noteq> 0x27 \<and> c \<noteq> 0x22 \<and> c \<noteq> 0x60 \<and> c \<noteq> 0x2F"
      by simp
    moreover have "\<not> containsText (js ''x = 1; '') (js ''__PRESERVED__'')" by simp
    moreover have "0x2F \<notin> set (js '' note y = 2;'')" by simp
    ultimately show ?thesis using r by blast
  qed
  moreover have "processContent (js ''a.js'') True True ?d = js ''a = 1; // see x/y b = 2;''"
  proof -
    have "removeWhitespace ?d = js ''a = 1; '' @ js ''//'' @ js '' see x'' @ js ''/'' @ js ''y b = 2;''"
      using v by simp
    moreover have "\<forall>c \<in> set (js ''a = 1; '' @ js '' see x'' @ js ''y b = 2;''). c \<noteq> 0x27 \<and> c \<noteq> 0x22 \<and> c \<noteq> 0x60"
      by simp
    moreover have "0x2F \<notin> set (js ''a = 1; '')" "\<not> containsText (js ''a = 1; '') (js ''__PRESERVED__'')"
      by simp_all
    moreover have "js '' see x'' \<noteq> []" "hd (js '' see x'') \<noteq> 0x2A"
      "\<forall>c \<in> set (js '' see x''). c \<noteq> 0x2F \<and> c \<noteq> 0x5C"
      by simp_all
    moreover have "0x2F \<notin> set (js ''y b = 2;'')" "\<not> containsText (js ''y b = 2;'') (js ''__PRESERVED__'')"
      by simp_all
    ultimately have "processContent (js ''a.js'') True True ?d = removeWhitespace ?d"
      using k by blast
    then show ?thesis by (simp only: v)
  qed
  ultimately show ?thesis using w by simp
qed

text \<open>
  The code before the comment has to be free of the text \<^verbatim>\<open>__PRESERVED__\<close>:
  otherwise the restoring step may put text from behind the two slashes in its place.
\<close>

lemma both_settings_comment_text_restored:
  "processContent (js ''f.js'') True True (js ''x = __PRESERVED__0__; // '' @ 0x27 # js ''secret'' @ [0x27])
     = js ''x = '' @ 0x27 # js ''secret'' @ 0x27 # js ''; ''"
  by (simp add: processContent_def extname_def toLowerCase_def eval_removeWhitespace eval_removeComments)

subsection \<open>removeComments on its own\<close>

text \<open>A string literal that stands alone in a statement is kept.\<close>

lemma removeComments_keeps_plain_literal:
  "removeComments (js ''s = '' @ 0x22 # js ''//not-a-comment'' @ 0x22 # js '';'')
     = js ''s = '' @ 0x22 # js ''//not-a-comment'' @ 0x22 # js '';''"
  by (simp add: eval_removeComments)

text \<open>
  C7. \<open>removeComments\<close> should keep every string literal verbatim. It does not where
  the literal stands between two divisions on one line: the literal is replaced by the
  placeholder 0, the text from the first division slash to the second is then taken
  for a regex literal and replaced by the placeholder 1 with the placeholder 0 inside
  it, and the restoring step puts the stored text of item 1 back without looking for
  placeholders in it. The output holds \<^verbatim>\<open>__PRESERVED__0__\<close> where the string
  literal was.
\<close>

theorem removeComments_loses_string_literal:
  "removeComments (js ''a = x / 2; s = '' @ 0x22 # js ''//not-a-comment'' @ 0x22 # js ''; b = y / 3;'')
     = js ''a = x / 2; s = __PRESERVED__0__; b = y / 3;''"
  by (simp add: eval_removeComments)

text \<open>
  C6. \<open>removeComments\<close> should be idempotent on a text without comments. The
  statements \<^verbatim>\<open>var q = /'/; var p = __PRESERVED__0__;\<close> contain neither two slashes
  in a row nor a slash and a star, yet a second application changes the result of the
  first. The identifier of the input looks like a placeholder and is replaced by the
  stored regex literal; the result then has two quotes on one line, and the second
  application takes what lies between them for a string.
\<close>

theorem removeComments_not_idempotent:
  "\<not> containsText (js ''var q = /'' @ 0x27 # js ''/; var p = __PRESERVED__0__;'') (js ''//'')
   \<and> \<not> containsText (js ''var q = /'' @ 0x27 # js ''/; var p = __PRESERVED__0__;'') (js ''/*'')
   \<and> removeComments (js ''var q = /'' @ 0x27 # js ''/; var p = __PRESERVED__0__;'')
       = js ''var q = /'' @ 0x27 # js ''/; var p = /'' @ 0x27 # js ''/;''
   \<and> removeComments (removeComments (js ''var q = /'' @ 0x27 # js ''/; var p = __PRESERVED__0__;''))
       = js ''var q = /__PRESERVED__0__/;''"
  by (simp add: eval_removeComments)

section \<open>Properties of the tree walker, the formatter and the main block\<close>

lemmas gds = getDirectoryStructure.simps[of _ _ "Dir x" for x]
lemmas raf = readAllFiles.simps[of _ _ "Dir x" for x]

lemmas eval_walk = gds raf posix_def textFile_def shouldProcessFile_def processAllFiles_def
  isBinaryFile_def isBinaryFile_loop.simps maxBytes_def nonText_def js_div_def fl_zero
  lit_0_3_def processContent_def

lemmas eval_format = formatStructure.simps ownEntries_def isArrayIndex_def parseDecimal_def
  isDigit_def objectPrototypeKeys_def toDecimal.simps

lemmas eval_main = main_def getIgnorePatterns_def caught_def eval_walk eval_format

subsection \<open>The two passes against each other\<close>

text \<open>
  On one view of the file system the two passes take the same decisions: they skip
  the same binary files, with the same warnings in the same order, and they stop at
  the same exception or both return.
\<close>

lemma forEach_agree:
  "(\<And>x s1 s2. x \<in> set xs \<Longrightarrow> agree (f x s1) (g x s2)) \<Longrightarrow> agree (forEach f xs s1) (forEach g xs s2)"
proof (induction xs arbitrary: s1 s2)
  case Nil
  then show ?case by simp
next
  case (Cons x xs)
  have a: "agree (f x s1) (g x s2)" using Cons.prems by simp
  obtain w r where fx: "f x s1 = (w, r)" by (cases "f x s1")
  obtain w' r' where gx: "g x s2 = (w', r')" by (cases "g x s2")
  show ?case
  proof (cases r)
    case (Inl e)
    with a fx gx show ?thesis by (cases r') auto
  next
    case (Inr t1)
    with a fx gx obtain t2 where r': "r' = Inr t2" and w: "w = w'" by (cases r') auto
    have "agree (forEach f xs t1) (forEach g xs t2)"
      using Cons.IH Cons.prems by simp
    then show ?thesis
      using fx gx Inr r' w
      by (cases "forEach f xs t1"; cases "forEach g xs t2"; cases "snd (forEach f xs t1)"; cases "snd (forEach g xs t2)") auto
  qed
qed

lemma isBinaryFile_read: "isBinaryFile child = Inr b \<Longrightarrow> \<exists>bytes. readFileSync child = Inr bytes"
  by (cases "readFileSync child") (auto simp: isBinaryFile_def)

lemma agree_wrap:
  "agree r1 r2 \<Longrightarrow>
   agree (case r1 of (w, Inl e) \<Rightarrow> (w, Inl e) | (w, Inr sub) \<Rightarrow> (w, Inr (h1 sub)))
         (case r2 of (w, Inl e) \<Rightarrow> (w, Inl e) | (w, Inr sub) \<Rightarrow> (w, Inr (h2 sub)))"
  by (cases r1; cases r2; cases "snd r1"; cases "snd r2") auto

lemma passes_agree:
  "agree (getDirectoryStructure env dir node fileStructure parentPath ig)
         (readAllFiles env dir node parentPath removeWhitespaceSetting removeCommentsSetting ig)"
proof (induction node arbitrary: dir fileStructure parentPath rule: measure_induct_rule[of size])
  case (less node)
  show ?case
  proof (cases "readdirSync dir node")
    case (Inl e)
    then show ?thesis
      by (subst getDirectoryStructure.simps, subst readAllFiles.simps) simp
  next
    case (Inr items)
    show ?thesis
      apply (subst getDirectoryStructure.simps, subst readAllFiles.simps)
      apply (simp only: Inr sum.case)
      apply (rule forEach_agree)
      subgoal premises prems for x s1 s2
      proof -
        obtain item child where ic: "x = (item, child)" by (cases x)
        have small: "size child < size node" using size_child[OF Inr] prems ic by blast
        note IH = agree_wrap[OF less.IH[OF small, of "pathJoin env dir item" "Obj [] None"
              "pathJoin env parentPath item"], of "setProperty s1 item" "\<lambda>sub. s2 @ sub"]
        then show ?thesis
          by (auto simp: ic Let_def split: sum.splits statinfo.splits bool.splits
              dest: isBinaryFile_read)
      qed
      done
  qed
qed

text \<open>
  A file named \<open>__proto__\<close> gets its block in the content pass, but the assignment of
  the structure pass replaces the prototype of the tree and adds no entry.
\<close>

lemma proto_file_not_listed:
  "main posix protoTree protoTree None =
     \<lparr>outputFile = Written (
        js ''Directory Structure:'' @ [0x0A]
        @ [0x0A] @ js ''File Contents:'' @ [0x0A]
        @ js ''File: __proto__'' @ [0x0A] @ js ''Path: __proto__'' @ [0x0A, 0x0A] @ js ''a''
        @ [0x0A, 0x0A]),
      stdout = [js ''Folder structure and file contents have been saved to /repo/output.txt''],
      stderr = [], exitCode = 0\<rparr>"
  by (simp add: eval_main protoTree_def)

text \<open>
  C1. The listing of the structure pass and the blocks of the content pass should name
  the same files in the same order. For a directory that \<open>readdirSync\<close> lists as
  \<open>10\<close>, \<open>9\<close> they do not: both names are array indices, the object built by the
  structure pass enumerates them in numeric order, and the listing shows \<open>9\<close> before
  \<open>10\<close>, while the content pass appends the block of \<open>10\<close> first.
\<close>

theorem structure_and_content_order_differ:
  "main posix numberedTree numberedTree None =
     \<lparr>outputFile = Written (
        js ''Directory Structure:'' @ [0x0A]
        @ js ''9 (Path: 9, Size: 1 bytes, Last Modified: Thu Jan 01 1970)'' @ [0x0A]
        @ js ''10 (Path: 10, Size: 1 bytes, Last Modified: Thu Jan 01 1970)'' @ [0x0A]
        @ [0x0A] @ js ''File Contents:'' @ [0x0A]
        @ js ''File: 10'' @ [0x0A] @ js ''Path: 10'' @ [0x0A, 0x0A] @ js ''a'' @ [0x0A, 0x0A]
        @ js ''File: 9'' @ [0x0A] @ js ''Path: 9'' @ [0x0A, 0x0A] @ js ''b'' @ [0x0A, 0x0A]),
      stdout = [js ''Folder structure and file contents have been saved to /repo/output.txt''],
      stderr = [], exitCode = 0\<rparr>"
  by (simp add: eval_main numberedTree_def)

subsection \<open>The exception of a pass\<close>

text \<open>
  A pass throws exactly when the traversal meets an I/O error, and it throws the first
  one: no error is swallowed, and nothing else makes a pass throw.
\<close>

lemma thrown_pair: "thrown (w, r) = (case r of Inl e \<Rightarrow> Some e | Inr x \<Rightarrow> None)"
  by (cases r) auto

lemma thrown_forEach:
  "(\<And>x s. x \<in> set xs \<Longrightarrow> thrown (f x s) = g x) \<Longrightarrow> thrown (forEach f xs s) = firstError g xs"
proof (induction xs arbitrary: s)
  case Nil
  then show ?case by simp
next
  case (Cons x xs)
  obtain w r where fx: "f x s = (w, r)" by (cases "f x s")
  have gx: "thrown (f x s) = g x" using Cons.prems by simp
  show ?case
  proof (cases r)
    case (Inl e)
    with fx gx have "g x = Some e" by simp
    then show ?thesis by (simp add: fx Inl)
  next
    case (Inr s')
    have "thrown (forEach f xs s') = firstError g xs" using Cons.IH Cons.prems by simp
    with fx gx Inr show ?thesis
      by (cases "forEach f xs s'") (auto simp: thrown_pair split: sum.splits)
  qed
qed

lemma thrown_wrap:
  "thrown (case r of (w, Inl e) \<Rightarrow> (w, Inl e) | (w, Inr sub) \<Rightarrow> (w, Inr (h sub))) = thrown r"
  by (cases r; cases "snd r") auto

lemma isBinaryFile_thrown:
  "isBinaryFile (File st (Inl m)) = Inl (SystemError m)"
  "isBinaryFile (File st (Inr bytes)) \<noteq> Inl e"
  by (auto simp: isBinaryFile_def Let_def split: loop_result.splits)

lemma getDirectoryStructure_thrown:
  "thrown (getDirectoryStructure env dir node fileStructure parentPath ig) = traversalError env ig dir node"
proof (induction node arbitrary: dir fileStructure parentPath rule: measure_induct_rule[of size])
  case (less node)
  show ?case
  proof (cases node)
    case (File st content)
    then show ?thesis by (subst getDirectoryStructure.simps) simp
  next
    case (NoStat m)
    then show ?thesis by (subst getDirectoryStructure.simps) simp
  next
    case (Dir listing)
    show ?thesis
    proof (cases listing)
      case (Inl m)
      with Dir show ?thesis by (subst getDirectoryStructure.simps) simp
    next
      case (Inr items)
      have rd: "readdirSync dir node = Inr items" using Dir Inr by simp
      show ?thesis
        unfolding Dir Inr
        apply (subst getDirectoryStructure.simps)
        apply (simp only: readdirSync.simps sum.case traversalError.simps)
        apply (rule thrown_forEach)
        subgoal premises prems for x s
        proof -
          obtain item child where ic: "x = (item, child)" by (cases x)
          have small: "size child < size node" using size_child[OF rd] prems ic by blast
          note IH = less.IH[OF small, of "pathJoin env dir item" "Obj [] None" "pathJoin env parentPath item"]
          show ?thesis
          proof (cases child)
            case (File st content)
            then show ?thesis
              by (cases content)
                 (auto simp: ic shouldProcessFile_def processAllFiles_def Let_def isBinaryFile_thrown
                       split: sum.splits bool.splits)
          next
            case (NoStat m)
            then show ?thesis by (simp add: ic Let_def)
          next
            case (Dir l)
            then show ?thesis
              using IH by (simp add: ic Let_def thrown_wrap)
          qed
        qed
        done
    qed
  qed
qed

lemma thrown_agree: "agree r1 r2 \<Longrightarrow> thrown r1 = thrown r2"
  by (cases r1; cases r2; cases "snd r1"; cases "snd r2") auto

lemma readAllFiles_thrown:
  "thrown (readAllFiles env dir node parentPath removeWhitespaceSetting removeCommentsSetting ig)
     = traversalError env ig dir node"
  using thrown_agree[OF passes_agree] getDirectoryStructure_thrown by metis

subsection \<open>The main block\<close>

lemma thrown_Some: "thrown r = Some e \<Longrightarrow> r = (fst r, Inl e)"
  by (cases r; cases "snd r") auto

lemma thrown_None: "thrown r = None \<Longrightarrow> \<exists>x. r = (fst r, Inr x)"
  by (cases r; cases "snd r") auto

lemma main_structure_error:
  assumes "getIgnorePatterns env structureView = Inr ig"
    and "traversalError env ig (cwd env) structureView = Some e"
  shows "main env structureView contentView writeError
    = caught (fst (getDirectoryStructure env (cwd env) structureView (Obj [] None) [] ig)) e"
proof -
  have "thrown (getDirectoryStructure env (cwd env) structureView (Obj [] None) [] ig) = Some e"
    using assms(2) by (simp only: getDirectoryStructure_thrown)
  from thrown_Some[OF this] obtain w
    where "getDirectoryStructure env (cwd env) structureView (Obj [] None) [] ig = (w, Inl e)"
    by blast
  then show ?thesis by (simp add: main_def Let_def assms(1))
qed

lemma main_content_error:
  assumes "getIgnorePatterns env structureView = Inr ig"
    and "traversalError env ig (cwd env) contentView = Some e"
  shows "\<exists>w e'. main env structureView contentView writeError = caught w e'"
proof -
  have "thrown (readAllFiles env (cwd env) contentView [] False False ig) = Some e"
    using assms(2) by (simp only: readAllFiles_thrown)
  from thrown_Some[OF this] obtain w
    where "readAllFiles env (cwd env) contentView [] False False ig = (w, Inl e)"
    by blast
  then show ?thesis
    by (auto simp: main_def Let_def assms(1) split: prod.splits sum.splits)
qed

lemma main_content_error_exact:
  assumes "getIgnorePatterns env structureView = Inr ig"
    and "getDirectoryStructure env (cwd env) structureView (Obj [] None) [] ig = (w1, Inr fileStructure)"
    and "formatStructure fileStructure 0 = Inr structureText"
    and "traversalError env ig (cwd env) contentView = Some e"
  shows "main env structureView contentView writeError
    = caught (w1 @ fst (readAllFiles env (cwd env) contentView [] False False ig)) e"
proof -
  have "thrown (readAllFiles env (cwd env) contentView [] False False ig) = Some e"
    using assms(4) by (simp only: readAllFiles_thrown)
  from thrown_Some[OF this] obtain w
    where "readAllFiles env (cwd env) contentView [] False False ig = (w, Inl e)"
    by blast
  then show ?thesis by (simp add: main_def Let_def assms(1,2,3))
qed

lemma main_written:
  assumes "outputFile (main env structureView contentView writeError) = Written out"
  shows "\<exists>ig w1 fileStructure structureText w2 filesText.
            getIgnorePatterns env structureView = Inr ig
          \<and> traversalError env ig (cwd env) structureView = None
          \<and> traversalError env ig (cwd env) contentView = None
          \<and> getDirectoryStructure env (cwd env) structureView (Obj [] None) [] ig
              = (w1, Inr fileStructure)
          \<and> formatStructure fileStructure 0 = Inr structureText
          \<and> readAllFiles env (cwd env) contentView [] False False ig = (w2, Inr filesText)
          \<and> out = js ''Directory Structure:'' @ [0x0A] @ structureText @ [0x0A]
                 @ js ''File Contents:'' @ [0x0A] @ filesText"
proof -
  from assms obtain ig w1 fileStructure structureText w2 filesText where
    a: "getIgnorePatterns env structureView = Inr ig"
       "getDirectoryStructure env (cwd env) structureView (Obj [] None) [] ig = (w1, Inr fileStructure)"
       "formatStructure fileStructure 0 = Inr structureText"
       "readAllFiles env (cwd env) contentView [] False False ig = (w2, Inr filesText)"
       "out = js ''Directory Structure:'' @ [0x0A] @ structureText @ [0x0A]
                 @ js ''File Contents:'' @ [0x0A] @ filesText"
    by (auto simp: main_def caught_def Let_def split: sum.splits prod.splits option.splits)
  have "traversalError env ig (cwd env) structureView = None"
    using getDirectoryStructure_thrown[of env "cwd env" structureView "Obj [] None" "[]" ig] a(2) by simp
  moreover have "traversalError env ig (cwd env) contentView = None"
    using readAllFiles_thrown[of env "cwd env" contentView "[]" False False ig] a(4) by simp
  ultimately show ?thesis using a by blast
qed

text \<open>
  C2, as stated, fails in one point: a run that meets a traversal error does not exit
  with a non-zero status. In \<open>lockedTree\<close> the directory \<open>private\<close> cannot be
  listed; the structure pass throws, and the run ends with status 0.
\<close>

theorem main_error_exit_status_zero:
  "getIgnorePatterns posix lockedTree
     = Inr [AddPatterns (EXCLUDE_DIRS @ SENSITIVE_FILES @ EXCLUDE_FILES)]
   \<and> getDirectoryStructure posix (cwd posix) lockedTree (Obj [] None) []
        [AddPatterns (EXCLUDE_DIRS @ SENSITIVE_FILES @ EXCLUDE_FILES)]
      = ([], Inl (SystemError (js ''EACCES: permission denied, scandir /repo/private'')))
   \<and> exitCode (main posix lockedTree lockedTree None) = 0"
  by (simp add: eval_main lockedTree_def)

text \<open>
  C2, amended. Every run ends with exit status 0. Let the ignore rules be loaded. When
  the traversal of the structure pass meets an I/O error (a directory that cannot be listed, a path whose \<open>stat\<close>
  fails, a file that cannot be read), no output file is written and the error console
  holds the warnings of the pass and then the line \<open>Error processing directory:\<close>
  with the message of the first such error. When the traversal of the content pass
  meets one, no output file is written and the last line of the error console is such
  a line; it carries the message of that error when the structure pass and the
  formatting of its tree have returned. The output file is written only when neither
  traversal has met an I/O error and the structure pass, the formatting and the content
  pass have all returned; it then holds their two texts.
\<close>

theorem main_aborts_on_traversal_error:
  "exitCode (main env structureView contentView writeError) = 0
   \<and> (getIgnorePatterns env structureView = Inr ig
        \<and> traversalError env ig (cwd env) structureView = Some e
      \<longrightarrow> outputFile (main env structureView contentView writeError) = NotWritten
        \<and> stderr (main env structureView contentView writeError)
            = fst (getDirectoryStructure env (cwd env) structureView (Obj [] None) [] ig)
              @ [js ''Error processing directory: '' @ message e])
   \<and> (getIgnorePatterns env structureView = Inr ig
        \<and> traversalError env ig (cwd env) contentView = Some e
      \<longrightarrow> outputFile (main env structureView contentView writeError) = NotWritten
        \<and> (\<exists>w e'. stderr (main env structureView contentView writeError)
              = w @ [js ''Error processing directory: '' @ message e']))
   \<and> (getIgnorePatterns env structureView = Inr ig
        \<and> getDirectoryStructure env (cwd env) structureView (Obj [] None) [] ig
            = (w1, Inr fileStructure)
        \<and> formatStructure fileStructure 0 = Inr structureText
        \<and> traversalError env ig (cwd env) contentView = Some e
      \<longrightarrow> outputFile (main env structureView contentView writeError) = NotWritten
        \<and> stderr (main env structureView contentView writeError)
            = w1 @ fst (readAllFiles env (cwd env) contentView [] False False ig)
              @ [js ''Error processing directory: '' @ message e])
   \<and> (outputFile (main env structureView contentView writeError) = Written out
      \<longrightarrow> (\<exists>ig w1 fileStructure structureText w2 filesText.
            getIgnorePatterns env structureView = Inr ig
          \<and> traversalError env ig (cwd env) structureView = None
          \<and> traversalError env ig (cwd env) contentView = None
          \<and> getDirectoryStructure env (cwd env) structureView (Obj [] None) [] ig
              = (w1, Inr fileStructure)
          \<and> formatStructure fileStructure 0 = Inr structureText
          \<and> readAllFiles env (cwd env) contentView [] False False ig = (w2, Inr filesText)
          \<and> out = js ''Directory Structure:'' @ [0x0A] @ structureText @ [0x0A]
                 @ js ''File Contents:'' @ [0x0A] @ filesText))"
proof -
  have 1: "exitCode (main env structureView contentView writeError) = 0"
    by (auto simp: main_def caught_def Let_def split: sum.splits prod.splits option.splits)
  have 2: "outputFile (main env structureView contentView writeError) = NotWritten
        \<and> stderr (main env structureView contentView writeError)
            = fst (getDirectoryStructure env (cwd env) structureView (Obj [] None) [] ig)
              @ [js ''Error processing directory: '' @ message e]"
    if "getIgnorePatterns env structureView = Inr ig"
       "traversalError env ig (cwd env) structureView = Some e"
    using main_structure_error[OF that] by (simp add: caught_def)
  have 3: "outputFile (main env structureView contentView writeError) = NotWritten
        \<and> (\<exists>w e'. stderr (main env structureView contentView writeError)
              = w @ [js ''Error processing directory: '' @ message e'])"
    if "getIgnorePatterns env structureView = Inr ig"
       "traversalError env ig (cwd env) contentView = Some e"
  proof -
    from main_content_error[OF that] obtain w e'
      where "main env structureView contentView writeError = caught w e'" by blast
    then show ?thesis by (auto simp: caught_def)
  qed
  have 4: "outputFile (main env structureView contentView writeError) = NotWritten
        \<and> stderr (main env structureView contentView writeError)
            = w1 @ fst (readAllFiles env (cwd env) contentView [] False False ig)
              @ [js ''Error processing directory: '' @ message e]"
    if "getIgnorePatterns env structureView = Inr ig"
       "getDirectoryStructure env (cwd env) structureView (Obj [] None) [] ig = (w1, Inr fileStructure)"
       "formatStructure fileStructure 0 = Inr structureText"
       "traversalError env ig (cwd env) contentView = Some e"
    using main_content_error_exact[OF that] by (simp add: caught_def)
  note 5 = main_written[of env structureView contentView writeError out]
  from 1 2 3 4 5 show ?thesis by blast
qed

theorem main_aborts_on_traversal_error_witness:
  "outputFile (main posix vanishedTree vanishedTree None) = NotWritten
   \<and> stderr (main posix vanishedTree vanishedTree None)
       = [js ''Error processing directory: ENOENT: no such file or directory, stat /repo/gone'']
   \<and> outputFile (main posix unreadableTree unreadableTree None) = NotWritten
   \<and> stderr (main posix unreadableTree unreadableTree None)
       = [js ''Error processing directory: EACCES: permission denied, open /repo/key.txt'']
   \<and> outputFile (main posix readableTree lockedTree None) = NotWritten
   \<and> stderr (main posix readableTree lockedTree None)
       = [js ''Error processing directory: EACCES: permission denied, scandir /repo/private'']
   \<and> exitCode (main posix readableTree lockedTree None) = 0
   \<and> traversalError posix [AddPatterns (EXCLUDE_DIRS @ SENSITIVE_FILES @ EXCLUDE_FILES)]
        (cwd posix) readableTree = None"
proof -
  let ?ig = "[AddPatterns (EXCLUDE_DIRS @ SENSITIVE_FILES @ EXCLUDE_FILES)]"
  let ?gone = "SystemError (js ''ENOENT: no such file or directory, stat /repo/gone'')"
  let ?key = "SystemError (js ''EACCES: permission denied, open /repo/key.txt'')"
  let ?private = "SystemError (js ''EACCES: permission denied, scandir /repo/private'')"
  have g1: "getIgnorePatterns posix vanishedTree = Inr ?ig"
    by (simp add: getIgnorePatterns_def vanishedTree_def)
  have t1: "traversalError posix ?ig (cwd posix) vanishedTree = Some ?gone"
    by (simp add: vanishedTree_def textFile_def posix_def)
  have w1: "fst (getDirectoryStructure posix (cwd posix) vanishedTree (Obj [] None) [] ?ig) = []"
    by (simp add: eval_walk vanishedTree_def)
  have g2: "getIgnorePatterns posix unreadableTree = Inr ?ig"
    by (simp add: getIgnorePatterns_def unreadableTree_def)
  have t2: "traversalError posix ?ig (cwd posix) unreadableTree = Some ?key"
    by (simp add: unreadableTree_def textFile_def posix_def)
  have w2: "fst (getDirectoryStructure posix (cwd posix) unreadableTree (Obj [] None) [] ?ig) = []"
    by (simp add: eval_walk unreadableTree_def)
  have g3: "getIgnorePatterns posix readableTree = Inr ?ig"
    by (simp add: getIgnorePatterns_def readableTree_def)
  let ?obj = "Obj [(js ''a.txt'',
           Obj [(js ''path'', Str (js ''/repo/a.txt'')), (js ''relativePath'', Str (js ''a.txt'')),
                (js ''size'', Num 1), (js ''lastModified'', Date (js ''Thu Jan 01 1970''))] None)] None"
  let ?txt = "js ''a.txt (Path: a.txt, Size: 1 bytes, Last Modified: Thu Jan 01 1970)'' @ [0x0A]"
  have s3: "getDirectoryStructure posix (cwd posix) readableTree (Obj [] None) [] ?ig = ([], Inr ?obj)"
    by (simp add: eval_walk readableTree_def)
  have f3: "formatStructure ?obj 0 = Inr ?txt"
    by (simp add: eval_format)
  have t3: "traversalError posix ?ig (cwd posix) lockedTree = Some ?private"
    by (simp add: lockedTree_def textFile_def posix_def)
  have w3: "fst (readAllFiles posix (cwd posix) lockedTree [] False False ?ig) = []"
    by (simp add: eval_walk lockedTree_def)
  have m4: "outputFile (main posix readableTree readableTree None)
      = Written (js ''Directory Structure:'' @ [0x0A]
          @ js ''a.txt (Path: a.txt, Size: 1 bytes, Last Modified: Thu Jan 01 1970)'' @ [0x0A]
          @ [0x0A] @ js ''File Contents:'' @ [0x0A]
          @ js ''File: a.txt'' @ [0x0A] @ js ''Path: a.txt'' @ [0x0A, 0x0A] @ js ''a'' @ [0x0A, 0x0A])"
    by (simp add: eval_main readableTree_def)
  note a = main_aborts_on_traversal_error[where env = posix and structureView = vanishedTree
      and contentView = vanishedTree and writeError = None and ig = ?ig and e = ?gone
      and ?w1.0 = "[]" and fileStructure = Undefined and structureText = "[]" and out = "[]"]
  note b = main_aborts_on_traversal_error[where env = posix and structureView = unreadableTree
      and contentView = unreadableTree and writeError = None and ig = ?ig and e = ?key
      and ?w1.0 = "[]" and fileStructure = Undefined and structureText = "[]" and out = "[]"]
  note c = main_aborts_on_traversal_error[where env = posix and structureView = readableTree
      and contentView = lockedTree and writeError = None and ig = ?ig and e = ?private
      and ?w1.0 = "[]" and fileStructure = ?obj and structureText = ?txt and out = "[]"]
  note d = main_aborts_on_traversal_error[where env = posix and structureView = readableTree
      and contentView = readableTree and writeError = None and ig = ?ig and e = ?gone
      and ?w1.0 = "[]" and fileStructure = Undefined and structureText = "[]", THEN conjunct2,
      THEN conjunct2, THEN conjunct2, THEN conjunct2, THEN mp, OF m4]
  have 1: "outputFile (main posix vanishedTree vanishedTree None) = NotWritten
    \<and> stderr (main posix vanishedTree vanishedTree None)
       = [js ''Error processing directory: ENOENT: no such file or directory, stat /repo/gone'']"
    using a g1 t1 w1 by simp
  have 2: "outputFile (main posix unreadableTree unreadableTree None) = NotWritten
    \<and> stderr (main posix unreadableTree unreadableTree None)
       = [js ''Error processing directory: EACCES: permission denied, open /repo/key.txt'']"
    using b g2 t2 w2 by simp
  have 3: "outputFile (main posix readableTree lockedTree None) = NotWritten
    \<and> stderr (main posix readableTree lockedTree None)
       = [js ''Error processing directory: EACCES: permission denied, scandir /repo/private'']
    \<and> exitCode (main posix readableTree lockedTree None) = 0"
    using c g3 s3 f3 t3 w3 by simp
  have 4: "traversalError posix ?ig (cwd posix) readableTree = None"
    using d g3 by auto
  from 1 2 3 4 show ?thesis by blast
qed

subsection \<open>The formatter\<close>

lemma ownEntries_plain:
  "(\<And>k v. (k, v) \<in> set props \<Longrightarrow> \<not> isArrayIndex k) \<Longrightarrow> ownEntries props = props"
proof -
  assume a: "\<And>k v. (k, v) \<in> set props \<Longrightarrow> \<not> isArrayIndex k"
  then have "filter (\<lambda>(k, v). isArrayIndex k) props = []"
    by (auto simp: filter_empty_conv)
  moreover from a have "filter (\<lambda>(k, v). \<not> isArrayIndex k) props = props"
    by (auto simp: filter_id_conv)
  ultimately show ?thesis by (simp add: ownEntries_def)
qed

lemma concatResults_map_image:
  "(\<And>x. x \<in> set xs \<Longrightarrow> f (h x) = Inr (g x)) \<Longrightarrow> concatResults f (map h xs) = Inr (concat (map g xs))"
  by (induction xs) auto

lemma absent_key:
  "(\<And>k t. (k, t) \<in> set cs \<Longrightarrow> k \<noteq> key) \<Longrightarrow> map_of (map (\<lambda>(name, t). (name, toObject t)) cs) key = None"
proof -
  assume "\<And>k t. (k, t) \<in> set cs \<Longrightarrow> k \<noteq> key"
  then have "key \<notin> fst ` set (map (\<lambda>(name, t). (name, toObject t)) cs)" by force
  then show ?thesis by (metis map_of_eq_None_iff)
qed

text \<open>
  On the object of a directory node with plain names throughout, \<open>formatStructure\<close>
  returns the listing of the specification.
\<close>

lemma formatStructure_plain_aux:
  "plainTree t \<Longrightarrow> t = DirectoryNode children \<Longrightarrow>
   formatStructure (toObject t) indent = Inr (concat (map (render indent) children))"
proof (induction t arbitrary: children indent)
  case (FileEntry p r s m)
  then show ?case by simp
next
  case (DirectoryNode cs)
  then have eq: "children = cs" by simp
  let ?props = "map (\<lambda>(name, t). (name, toObject t)) cs"
  have plain: "\<And>k t. (k, t) \<in> set cs \<Longrightarrow> plainName k \<and> plainTree t"
    using DirectoryNode.prems(1) by (auto simp: list_all_iff)
  have own: "ownEntries ?props = ?props"
    by (rule ownEntries_plain) (use plain in \<open>auto simp: plainName_def\<close>)
  show ?case
  proof (cases "cs = []")
    case True
    then show ?thesis by (simp add: eq ownEntries_def)
  next
    case False
    then have ne: "forInKeys (Obj ?props None) \<noteq> []" by (simp add: own)
    have "map_of ?props (js ''hasOwnProperty'') = None"
      by (rule absent_key) (use plain in \<open>auto simp: plainName_def\<close>)
    then have h: "getProperty (Obj ?props None) (js ''hasOwnProperty'') = Function"
      by (simp add: objectPrototypeKeys_def)
    have "formatStructure (Obj ?props None) indent = Inr (concat (map (render indent) cs))"
      unfolding formatStructure.simps Let_def own
    proof (simp only: ne h if_False simp_thms, rule concatResults_map_image)
      fix x assume x: "x \<in> set cs"
      obtain key t where kt: "x = (key, t)" by (cases x)
      have pt: "plainTree t" using plain x kt by blast
      show "(case (case x of (name, t) \<Rightarrow> (name, toObject t)) of (key, v) \<Rightarrow>
           if typeof v = js ''object'' \<and> hasProperty v (js ''relativePath'') then
             (case toString (getProperty v (js ''relativePath'')) of
                Inl e \<Rightarrow> Inl e
              | Inr relativePath \<Rightarrow>
             (case toString (getProperty v (js ''size'')) of
                Inl e \<Rightarrow> Inl e
              | Inr sizeText \<Rightarrow>
             (case toString (getProperty v (js ''lastModified'')) of
                Inl e \<Rightarrow> Inl e
              | Inr lastModified \<Rightarrow>
                  Inr (replicate indent 0x20 @ key @ js '' (Path: '' @ relativePath
                       @ js '', Size: '' @ sizeText @ js '' bytes, Last Modified: ''
                       @ lastModified @ js '')'' @ [0x0A]))))
           else
             (case formatStructure v (indent + 2) of
                Inl e \<Rightarrow> Inl e
              | Inr sub \<Rightarrow> Inr (replicate indent 0x20 @ key @ js ''/'' @ [0x0A] @ sub)))
        = Inr (render indent x)"
      proof (cases t)
        case (FileEntry p r s m)
        then show ?thesis by (simp add: kt)
      next
        case (DirectoryNode cs')
        have "map_of (map (\<lambda>(name, t). (name, toObject t)) cs') (js ''relativePath'') = None"
          by (rule absent_key) (use pt DirectoryNode in \<open>auto simp: list_all_iff plainName_def\<close>)
        then have nr: "\<not> hasProperty (toObject t) (js ''relativePath'')"
          using DirectoryNode by (simp add: objectPrototypeKeys_def)
        have "formatStructure (toObject t) (indent + 2) = Inr (concat (map (render (indent + 2)) cs'))"
          using DirectoryNode.IH[of x t cs' "indent + 2"] x kt pt DirectoryNode by simp
        with nr DirectoryNode show ?thesis by (simp add: kt)
      qed
    qed
    then show ?thesis by (simp add: eq)
  qed
qed

lemma formatStructure_plain:
  "plainTree (DirectoryNode children) \<Longrightarrow>
   formatStructure (toObject (DirectoryNode children)) indent
     = Inr (concat (map (render indent) children))"
  by (rule formatStructure_plain_aux) simp_all

text \<open>
  C8. Every nested directory should be printed as its name and a slash, followed by its
  children. In \<open>packageTree\<close> the directory \<open>src\<close> holds a directory named
  \<open>relativePath\<close>; the test \<open>'relativePath' in fileStructure[key]\<close> then takes
  \<open>src\<close> for a file entry, and the listing is one line for \<open>src\<close> with the texts of
  an object and of two missing properties, without the children of \<open>src\<close>.
\<close>

theorem formatStructure_directory_as_file:
  "getDirectoryStructure posix (js ''/repo'') packageTree (Obj [] None) [] [] =
     ([], Inr (Obj [(js ''src'', Obj [(js ''relativePath'', Obj [(js ''index.js'',
        Obj [(js ''path'', Str (js ''/repo/src/relativePath/index.js'')),
             (js ''relativePath'', Str (js ''src/relativePath/index.js'')),
             (js ''size'', Num 2),
             (js ''lastModified'', Date (js ''Thu Jan 01 1970''))] None)] None)] None)] None))
   \<and> formatStructure (Obj [(js ''src'', Obj [(js ''relativePath'', Obj [(js ''index.js'',
        Obj [(js ''path'', Str (js ''/repo/src/relativePath/index.js'')),
             (js ''relativePath'', Str (js ''src/relativePath/index.js'')),
             (js ''size'', Num 2),
             (js ''lastModified'', Date (js ''Thu Jan 01 1970''))] None)] None)] None)] None) 0
     = Inr (js ''src (Path: [object Object], Size: undefined bytes, Last Modified: undefined)''
            @ [0x0A])"
  by (simp add: eval_walk eval_format packageTree_def)

end
